theory Spec2Isabelle
  imports Complex_Main "HOL-Library.Monad_Syntax"
begin

section \<open>Data model (core/data\_models.py)\<close>

text \<open>
  The enumerations of \<^verbatim>\<open>data_models.py\<close> are datatypes, the dataclasses are records.
  Python's \<^verbatim>\<open>Optional[int]\<close> is \<open>int option\<close>, \<^verbatim>\<open>int\<close> is \<open>int\<close>, \<^verbatim>\<open>float\<close> constants such
  as the confidence scores are exact decimals in \<open>real\<close>.
\<close>

datatype FileType = PDF | EPUB | UNKNOWN

datatype ChapterDetectionMethod = AUTO | MANUAL | XPATH

datatype ProcessingStatus = PENDING | RUNNING | SUCCESS | ERROR | CANCELLED

datatype OutputFormat = SAME_AS_INPUT | OUT_PDF | OUT_EPUB

record Chapter =
  chapter_id :: "int option"
  document_id :: "int option"
  chapter_number :: int
  title :: string
  start_page :: "int option"
  end_page :: "int option"
  xpath :: string
  html_tag :: string
  html_content :: string
  detected_method :: ChapterDetectionMethod
  confidence_score :: real
  output_file_path :: string
  split_status :: ProcessingStatus

text \<open>The defaults of the dataclass \<^verbatim>\<open>Chapter\<close>.\<close>

definition Chapter_default :: Chapter where
  "Chapter_default =
     \<lparr>chapter_id = None, document_id = None, chapter_number = 0, title = [],
      start_page = None, end_page = None, xpath = [], html_tag = [], html_content = [],
      detected_method = AUTO, confidence_score = 0, output_file_path = [],
      split_status = PENDING\<rparr>"

text \<open>Exceptions that the modelled code can raise.\<close>

datatype py_error = TypeError | FileProcessingError

section \<open>Normalisation (pdf\_processor.py, epub\_processor.py)\<close>

text \<open>
  \<^verbatim>\<open>_normalize_chapter_numbers\<close> is the same loop in both processors:
  \<^verbatim>\<open>for idx, chapter in enumerate(chapters): chapter.chapter_number = idx + 1\<close>.
  The loop mutates the chapters in place; the model returns the updated list.
\<close>

definition normalize_chapter_numbers :: "Chapter list \<Rightarrow> Chapter list" where
  "normalize_chapter_numbers chapters =
     map (\<lambda>(idx, chapter). chapter\<lparr>chapter_number := int idx + 1\<rparr>) (enumerate 0 chapters)"

text \<open>
  \<^verbatim>\<open>_set_chapter_end_pages\<close> walks the list by index. Chapter \<open>i\<close> gets the next chapter's
  start page minus one, the last chapter the page count, and an end page below the start page is
  raised to the start page. \<^verbatim>\<open>start_page\<close> is \<^verbatim>\<open>Optional[int]\<close>: arithmetic or comparison with
  \<^verbatim>\<open>None\<close> raises \<^verbatim>\<open>TypeError\<close>, which leaves the loop with the chapters updated so far
  (\<open>Inl\<close> carries the error and that list).
\<close>

function set_chapter_end_pages_from ::
  "nat \<Rightarrow> Chapter list \<Rightarrow> int \<Rightarrow> (py_error \<times> Chapter list) + Chapter list" where
  "set_chapter_end_pages_from i chapters total_pages =
     (if i < length chapters then
        (case (if i < length chapters - 1
               then (case start_page (chapters ! (i + 1)) of
                       None \<Rightarrow> Inl TypeError
                     | Some s \<Rightarrow> Inr (s - 1))
               else Inr total_pages) of
           Inl e \<Rightarrow> Inl (e, chapters)
         | Inr e \<Rightarrow>
             (let chapters1 = chapters[i := (chapters ! i)\<lparr>end_page := Some e\<rparr>] in
              case start_page (chapters1 ! i) of
                None \<Rightarrow> Inl (TypeError, chapters1)
              | Some s \<Rightarrow>
                  set_chapter_end_pages_from (i + 1)
                    (if e < s then chapters1[i := (chapters1 ! i)\<lparr>end_page := Some s\<rparr>]
                     else chapters1)
                    total_pages))
      else Inr chapters)"
  by pat_completeness auto
termination
  by (relation "measure (\<lambda>(i, chapters, total_pages). length chapters - i)") auto

declare set_chapter_end_pages_from.simps [simp del]

definition set_chapter_end_pages ::
  "Chapter list \<Rightarrow> int \<Rightarrow> (py_error \<times> Chapter list) + Chapter list" where
  "set_chapter_end_pages chapters total_pages = set_chapter_end_pages_from 0 chapters total_pages"

text \<open>
  The boundary property as the specification words it, on lists whose pages are all set:
  every start is at most its end, each end is followed directly by the next start, and the last
  end is the page count.
\<close>

definition spec_boundaries :: "int \<Rightarrow> Chapter list \<Rightarrow> bool" where
  "spec_boundaries total_pages chapters =
     (list_all (\<lambda>c. the (start_page c) \<le> the (end_page c)) chapters \<and>
      list_all (\<lambda>i. the (end_page (chapters ! i)) + 1 = the (start_page (chapters ! (i + 1))))
        [0..<length chapters - 1] \<and>
      the (end_page (last chapters)) = total_pages)"

text \<open>A PDF chapter as the detectors create it: start and end on the detected page.\<close>

definition pdf_chapter :: "int \<Rightarrow> Chapter" where
  "pdf_chapter p = Chapter_default\<lparr>start_page := Some p, end_page := Some p\<rparr>"

text \<open>
  What the loop computes for chapter \<open>j\<close>: the larger of its own start page and the page before
  the next start (the page count for the last chapter).
\<close>

definition resolved_end :: "Chapter list \<Rightarrow> int \<Rightarrow> nat \<Rightarrow> int" where
  "resolved_end chapters total_pages j =
     max (the (start_page (chapters ! j)))
         (if j < length chapters - 1 then the (start_page (chapters ! (j + 1))) - 1
          else total_pages)"

section \<open>Paths and unique file names (utils/file\_utils.py)\<close>

text \<open>
  A \<^verbatim>\<open>pathlib.Path\<close> of a file in a directory: the directory and the final component.
  \<^verbatim>\<open>Path.stem\<close> and \<^verbatim>\<open>Path.suffix\<close> cut the name at its last dot when that dot is neither the
  first nor the last character (\<^verbatim>\<open>i = name.rfind('.'); 0 < i < len(name) - 1\<close>).
\<close>

datatype path = Path (parent: string) (name: string)

fun rfind :: "char \<Rightarrow> string \<Rightarrow> int" where
  "rfind c [] = - 1"
| "rfind c (x # xs) =
     (let r = rfind c xs in if 0 \<le> r then r + 1 else if x = c then 0 else - 1)"

definition path_suffix :: "string \<Rightarrow> string" where
  "path_suffix nm =
     (let i = rfind CHR ''.'' nm in
      if 0 < i \<and> i < int (length nm) - 1 then drop (nat i) nm else [])"

definition path_stem :: "string \<Rightarrow> string" where
  "path_stem nm =
     (let i = rfind CHR ''.'' nm in
      if 0 < i \<and> i < int (length nm) - 1 then take (nat i) nm else nm)"

text \<open>Decimal rendering of the counter and of the timestamp in an f-string.\<close>

definition digit_char :: "nat \<Rightarrow> char" where
  "digit_char d = ''0123456789'' ! d"

fun str_nat :: "nat \<Rightarrow> string" where
  "str_nat n = (if n < 10 then [digit_char n] else str_nat (n div 10) @ [digit_char (n mod 10)])"

declare str_nat.simps [simp del]

definition str_int :: "int \<Rightarrow> string" where
  "str_int i = (if i < 0 then CHR ''-'' # str_nat (nat (- i)) else str_nat (nat i))"

text \<open>
  \<^verbatim>\<open>ensure_unique_filename\<close>. The file system is the set \<open>fs\<close> of existing paths, \<open>now\<close> is the value
  of \<^verbatim>\<open>int(time.time())\<close>. The \<^verbatim>\<open>while True\<close> loop tries the counters 1, 2, ... and leaves with the
  timestamp name once the counter has passed 9999.
\<close>

definition numbered_path :: "path \<Rightarrow> nat \<Rightarrow> path" where
  "numbered_path filepath counter =
     Path (parent filepath)
       (path_stem (name filepath) @ '' ('' @ str_nat counter @ '')'' @ path_suffix (name filepath))"

definition timestamp_path :: "path \<Rightarrow> int \<Rightarrow> path" where
  "timestamp_path filepath now =
     Path (parent filepath)
       (path_stem (name filepath) @ ''_'' @ str_int now @ path_suffix (name filepath))"

function unique_loop :: "path set \<Rightarrow> path \<Rightarrow> int \<Rightarrow> nat \<Rightarrow> path" where
  "unique_loop fs filepath now counter =
     (let new_path = numbered_path filepath counter in
      if new_path \<notin> fs then new_path
      else let counter1 = counter + 1 in
           if counter1 > 9999 then timestamp_path filepath now
           else unique_loop fs filepath now counter1)"
  by pat_completeness auto
termination
  by (relation "measure (\<lambda>(fs, filepath, now, counter). 10000 - counter)") auto

declare unique_loop.simps [simp del]

definition ensure_unique_filename :: "path set \<Rightarrow> int \<Rightarrow> path \<Rightarrow> path" where
  "ensure_unique_filename fs now filepath =
     (if filepath \<notin> fs then filepath else unique_loop fs filepath now 1)"

section \<open>File name sanitising (utils/file\_utils.py)\<close>

text \<open>
  Strings are Python strings of ASCII characters. On them \<^verbatim>\<open>unicodedata.normalize('NFKC', s)\<close>
  is the identity, \<^verbatim>\<open>\s\<close> and \<^verbatim>\<open>str.strip()\<close> know the ten characters of \<open>is_space\<close>, and
  \<^verbatim>\<open>upper\<close> and \<^verbatim>\<open>lower\<close> change the 26 letters only.
\<close>

definition is_space :: "char \<Rightarrow> bool" where
  "is_space c = (c \<in> {CHR 0x09, CHR 0x0A, CHR 0x0B, CHR 0x0C, CHR 0x0D,
                        CHR 0x1C, CHR 0x1D, CHR 0x1E, CHR 0x1F, CHR '' ''})"

definition to_upper :: "char \<Rightarrow> char" where
  "to_upper c =
     (case map_of (zip ''abcdefghijklmnopqrstuvwxyz'' ''ABCDEFGHIJKLMNOPQRSTUVWXYZ'') c of
        Some u \<Rightarrow> u
      | None \<Rightarrow> c)"

definition to_lower :: "char \<Rightarrow> char" where
  "to_lower c =
     (case map_of (zip ''ABCDEFGHIJKLMNOPQRSTUVWXYZ'' ''abcdefghijklmnopqrstuvwxyz'') c of
        Some l \<Rightarrow> l
      | None \<Rightarrow> c)"

text \<open>\<^verbatim>\<open>s.strip(chars)\<close>: drop the characters of \<open>chars\<close> from both ends.\<close>

definition strip_chars :: "string \<Rightarrow> string \<Rightarrow> string" where
  "strip_chars chars s =
     rev (dropWhile (\<lambda>c. c \<in> set chars) (rev (dropWhile (\<lambda>c. c \<in> set chars) s)))"

text \<open>\<^verbatim>\<open>s.strip()\<close>: drop white space from both ends.\<close>

definition strip_space :: "string \<Rightarrow> string" where
  "strip_space s = rev (dropWhile is_space (rev (dropWhile is_space s)))"

text \<open>
  \<^verbatim>\<open>Path(s).name\<close>: the last component of \<open>s\<close> split at the slashes, where empty components
  and single dots do not count.
\<close>

fun split_on :: "char \<Rightarrow> string \<Rightarrow> string list" where
  "split_on c [] = [[]]"
| "split_on c (x # xs) =
     (if x = c then [] # split_on c xs
      else (case split_on c xs of [] \<Rightarrow> [[x]] | p # ps \<Rightarrow> (x # p) # ps))"

definition path_name :: "string \<Rightarrow> string" where
  "path_name s =
     (case rev (filter (\<lambda>p. p \<noteq> [] \<and> p \<noteq> ''.'') (split_on CHR ''/'' s)) of
        [] \<Rightarrow> []
      | p # ps \<Rightarrow> p)"

text \<open>The constants of the module.\<close>

definition INVALID_FILENAME_CHARS :: "char set" where
  "INVALID_FILENAME_CHARS =
     {CHR ''<'', CHR ''>'', CHR '':'', CHR 0x22, CHR ''/'', CHR 0x5C, CHR ''|'', CHR ''?'',
      CHR ''*'', CHR 0x0A, CHR 0x0D, CHR 0x09}"

definition RESERVED_NAMES :: "string list" where
  "RESERVED_NAMES =
     [''CON'', ''PRN'', ''AUX'', ''NUL'',
      ''COM1'', ''COM2'', ''COM3'', ''COM4'', ''COM5'', ''COM6'', ''COM7'', ''COM8'', ''COM9'',
      ''LPT1'', ''LPT2'', ''LPT3'', ''LPT4'', ''LPT5'', ''LPT6'', ''LPT7'', ''LPT8'', ''LPT9'']"

text \<open>The steps of \<^verbatim>\<open>sanitize_filename\<close>, in the order of the source.\<close>

text \<open>\<^verbatim>\<open>re.sub(r'[\n\r\t\f\v]', ' ', filename)\<close>\<close>

definition replace_control :: "string \<Rightarrow> string" where
  "replace_control s =
     map (\<lambda>c. if c \<in> {CHR 0x0A, CHR 0x0D, CHR 0x09, CHR 0x0C, CHR 0x0B} then CHR '' '' else c) s"

text \<open>
  \<^verbatim>\<open>re.sub(X+, r, s)\<close> for a class \<open>X\<close> of single characters: every maximal run of
  characters of the class becomes the one character \<open>r\<close>.
\<close>

function collapse_runs :: "(char \<Rightarrow> bool) \<Rightarrow> char \<Rightarrow> string \<Rightarrow> string" where
  "collapse_runs X r [] = []"
| "collapse_runs X r (c # cs) =
     (if X c then r # collapse_runs X r (dropWhile X cs)
      else c # collapse_runs X r cs)"
  by pat_completeness auto
termination
  by (relation "measure (\<lambda>(X, r, s). length s)") (auto simp: length_dropWhile_le less_Suc_eq_le)

text \<open>\<^verbatim>\<open>re.sub(r'\s+', ' ', filename)\<close>\<close>

definition collapse_spaces :: "string \<Rightarrow> string" where
  "collapse_spaces s = collapse_runs is_space CHR '' '' s"

text \<open>\<^verbatim>\<open>re.sub(INVALID_FILENAME_CHARS, replacement, filename)\<close> with the replacement \<^verbatim>\<open>_\<close>.\<close>

definition replace_invalid :: "string \<Rightarrow> string" where
  "replace_invalid s = map (\<lambda>c. if c \<in> INVALID_FILENAME_CHARS then CHR ''_'' else c) s"

text \<open>\<^verbatim>\<open>re.sub(re.escape(replacement) + r'+', replacement, filename)\<close>\<close>

definition collapse_replacement :: "string \<Rightarrow> string" where
  "collapse_replacement s = collapse_runs (\<lambda>c. c = CHR ''_'') CHR ''_'' s"

text \<open>The reserved-name step: a stem that is a device name gets the replacement in front.\<close>

definition guard_reserved :: "string \<Rightarrow> string" where
  "guard_reserved s =
     (if map to_upper (path_stem (path_name s)) \<in> set RESERVED_NAMES then ''_'' @ s else s)"

text \<open>The length step with \<^verbatim>\<open>max_length = 255\<close>.\<close>

definition truncate_name :: "string \<Rightarrow> string" where
  "truncate_name s =
     (if length s > 255 then
        (let nm = path_stem (path_name s);
             ext = path_suffix (path_name s);
             max_name_length = 255 - int (length ext) - 10
         in if max_name_length > 0 then take (nat max_name_length) nm @ ''...'' @ ext
            else ''truncated'' @ ext)
      else s)"

text \<open>
  \<^verbatim>\<open>sanitize_filename(filename)\<close> with the default arguments \<^verbatim>\<open>replacement="_"\<close> and
  \<^verbatim>\<open>max_length=255\<close>, which is how every caller uses it. None of the steps raises on a string, so
  the \<^verbatim>\<open>except\<close> branch is not reached. The first step of the source,
  \<^verbatim>\<open>unicodedata.normalize('NFKC', str(filename))\<close>, changes nothing in a string of ASCII characters
  and has no counterpart here: the definition is the function on ASCII text only.
\<close>

definition sanitize_filename :: "string \<Rightarrow> string" where
  "sanitize_filename filename =
     (if filename = [] then ''untitled''
      else
        (let f1 = replace_control filename;
             f2 = collapse_spaces f1;
             f3 = strip_chars '' .'' f2;
             f4 = replace_invalid f3;
             f5 = collapse_replacement f4;
             f6 = strip_chars ''_ '' f5;
             f7 = guard_reserved f6;
             f8 = truncate_name f7
         in if f8 = [] \<or> f8 = ''_'' then ''untitled'' else f8))"

text \<open>
  Auxiliary notions for reasoning about \<open>sanitize_filename\<close>: the steps before the reserved-name
  check as one function, the final fallback, and the shape of a string after those steps (no
  white space but single spaces, no invalid character, no doubled space or underscore).
\<close>

definition no_double :: "char \<Rightarrow> string \<Rightarrow> bool" where
  "no_double c s = successively (\<lambda>a b. \<not> (a = c \<and> b = c)) s"

definition plain_chars :: "string \<Rightarrow> bool" where
  "plain_chars s = (\<forall>c \<in> set s. (is_space c \<longrightarrow> c = CHR '' '') \<and> c \<notin> INVALID_FILENAME_CHARS)"

definition inner :: "string \<Rightarrow> bool" where
  "inner s = (plain_chars s \<and> no_double CHR '' '' s \<and> no_double CHR ''_'' s)"

definition sanitize_core :: "string \<Rightarrow> string" where
  "sanitize_core x =
     strip_chars ''_ '' (collapse_replacement (replace_invalid
       (strip_chars '' .'' (collapse_spaces (replace_control x)))))"

definition finish_name :: "string \<Rightarrow> string" where
  "finish_name s = (if s = [] \<or> s = ''_'' then ''untitled'' else s)"

definition spaces_plain :: "string \<Rightarrow> bool" where
  "spaces_plain s = (\<forall>c \<in> set s. is_space c \<longrightarrow> c = CHR '' '')"

text \<open>Strings of ASCII characters, the strings on which the definitions above are the code.\<close>

definition ascii_text :: "string \<Rightarrow> bool" where
  "ascii_text s = list_all (\<lambda>c. (of_char c :: nat) < 128) s"

section \<open>Heuristic chapter detection in EPUB content (processors/epub\_processor.py)\<close>

text \<open>
  A content item of the book (\<^verbatim>\<open>ebooklib\<close>): its \<^verbatim>\<open>file_name\<close> attribute (\<open>None\<close> when the item
  has none) and the text that \<^verbatim>\<open>_safe_get_item_content\<close> obtains from it (\<open>None\<close> when that
  fails). The HTML parser is a parameter: it turns the content into the elements of the document
  in document order, each with its tag name and its \<^verbatim>\<open>get_text(strip=True)\<close>.
\<close>

record content_item =
  file_name :: "string option"
  item_content :: "string option"

type_synonym soup = "(string \<times> string) list"

definition find_all :: "soup \<Rightarrow> string \<Rightarrow> string list" where
  "find_all soup tag_name = map snd (filter (\<lambda>(n, t). n = tag_name) soup)"

definition heading_tags :: "string list" where
  "heading_tags = [''h1'', ''h2'', ''h3'', ''title'']"

text \<open>
  \<^verbatim>\<open>_extract_title_from_content\<close>: the first non-empty text, tag name by tag name and within a
  tag name in document order; without one, the stem of the item's file name; without a file name
  the empty string.
\<close>

definition extract_title_from_content :: "soup \<Rightarrow> content_item \<Rightarrow> string" where
  "extract_title_from_content soup item =
     (case List.find (\<lambda>t. t \<noteq> []) (concat (map (find_all soup) heading_tags)) of
        Some t \<Rightarrow> t
      | None \<Rightarrow>
          (case file_name item of
             Some fn \<Rightarrow> path_stem (path_name fn)
           | None \<Rightarrow> []))"

text \<open>
  The body of the loop of \<^verbatim>\<open>_extract_chapters_from_content\<close> for the item at index \<open>idx\<close>: no
  chapter for an item without content or without a title, else a chapter with the sanitised title
  and the confidence 0.6.
\<close>

definition content_chapter ::
  "(string \<Rightarrow> soup) \<Rightarrow> int option \<Rightarrow> nat \<Rightarrow> content_item \<Rightarrow> Chapter option" where
  "content_chapter parse doc_id idx item =
     (case item_content item of
        None \<Rightarrow> None
      | Some content \<Rightarrow>
          if content = [] then None
          else
            (let title = extract_title_from_content (parse content) item in
             if title = [] then None
             else Some (Chapter_default
               \<lparr>document_id := doc_id,
                chapter_number := int idx + 1,
                title := sanitize_filename title,
                xpath := (case file_name item of
                            Some fn \<Rightarrow> fn
                          | None \<Rightarrow> ''item_'' @ str_nat idx),
                detected_method := AUTO,
                confidence_score := 0.6\<rparr>)))"

definition extract_chapters_from_content ::
  "(string \<Rightarrow> soup) \<Rightarrow> int option \<Rightarrow> content_item list \<Rightarrow> Chapter list" where
  "extract_chapters_from_content parse doc_id items =
     List.map_filter (\<lambda>(idx, item). content_chapter parse doc_id idx item) (enumerate 0 items)"

section \<open>Structural chapter detection (processors/pdf\_processor.py, epub\_processor.py)\<close>

























section \<open>Reading a PDF document (processors/pdf\_processor.py, core/data\_models.py)\<close>

text \<open>
  What \<^verbatim>\<open>PyPDF2\<close> shows of a file. Opening the file and building the reader can raise; so can
  the page list, the \<^verbatim>\<open>metadata\<close> property and the header. The information dictionary maps keys
  such as \<^verbatim>\<open>/Title\<close> to text, \<open>None\<close> stands for a reader without one.
\<close>

datatype 'a attempt = Raises | Returns 'a

record pdf_reader =
  reader_pages :: "nat attempt"
  reader_metadata :: "(string \<rightharpoonup> string) option attempt"
  reader_header :: "string option attempt"

datatype fs_entry = Missing | File nat "pdf_reader attempt"

text \<open>The values of the metadata dictionary: the page count is an \<^verbatim>\<open>int\<close>, the rest is text.\<close>

datatype meta_value = MInt int | MStr string

type_synonym metadata = "string \<rightharpoonup> meta_value"

text \<open>
  \<^verbatim>\<open>_safe_get_pdf_meta\<close>: the stripped text of a key that is present with a non-empty value,
  else the empty string.
\<close>

definition safe_get_pdf_meta :: "(string \<rightharpoonup> string) \<Rightarrow> string \<Rightarrow> string" where
  "safe_get_pdf_meta pdf_meta key =
     (if pdf_meta \<noteq> Map.empty \<and> key \<in> dom pdf_meta
      then (case pdf_meta key of
              Some v \<Rightarrow> if v \<noteq> [] then strip_space v else []
            | None \<Rightarrow> [])
      else [])"

text \<open>
  The \<^verbatim>\<open>try\<close> block of \<^verbatim>\<open>_extract_pdf_metadata\<close>: \<open>Inl\<close> when something in it raises. The inner
  \<^verbatim>\<open>try\<close> around the header turns a failure there into the version \<^verbatim>\<open>unknown\<close>.
\<close>

definition extract_pdf_metadata_try :: "pdf_reader attempt \<Rightarrow> py_error + metadata" where
  "extract_pdf_metadata_try opened =
     (case opened of
        Raises \<Rightarrow> Inl FileProcessingError
      | Returns reader \<Rightarrow>
          (case reader_pages reader of
             Raises \<Rightarrow> Inl FileProcessingError
           | Returns n \<Rightarrow>
               (let m1 = [''page_count'' \<mapsto> MInt (int n)] in
                case reader_metadata reader of
                  Raises \<Rightarrow> Inl FileProcessingError
                | Returns info \<Rightarrow>
                    (let m2 =
                       (case info of
                          None \<Rightarrow> m1
                        | Some pdf_meta \<Rightarrow>
                            if pdf_meta = Map.empty then m1
                            else m1(''title'' \<mapsto> MStr (safe_get_pdf_meta pdf_meta ''/Title''),
                                    ''author'' \<mapsto> MStr (safe_get_pdf_meta pdf_meta ''/Author''),
                                    ''subject'' \<mapsto> MStr (safe_get_pdf_meta pdf_meta ''/Subject''),
                                    ''creator'' \<mapsto> MStr (safe_get_pdf_meta pdf_meta ''/Creator''),
                                    ''producer'' \<mapsto> MStr (safe_get_pdf_meta pdf_meta ''/Producer''),
                                    ''creation_date'' \<mapsto>
                                       MStr (safe_get_pdf_meta pdf_meta ''/CreationDate''),
                                    ''modification_date'' \<mapsto>
                                       MStr (safe_get_pdf_meta pdf_meta ''/ModDate'')))
                     in Inr (m2(''pdf_version'' \<mapsto>
                                  (case reader_header reader of
                                     Raises \<Rightarrow> MStr ''unknown''
                                   | Returns None \<Rightarrow> MStr ''unknown''
                                   | Returns (Some h) \<Rightarrow> MStr h)))))))"

text \<open>\<^verbatim>\<open>_extract_pdf_metadata\<close>: the \<^verbatim>\<open>except\<close> branch replaces the dictionary by three defaults.\<close>

definition extract_pdf_metadata :: "string \<Rightarrow> pdf_reader attempt \<Rightarrow> metadata" where
  "extract_pdf_metadata file_path opened =
     (case extract_pdf_metadata_try opened of
        Inl e \<Rightarrow> [''title'' \<mapsto> MStr (path_stem (path_name file_path)),
                  ''author'' \<mapsto> MStr ''unknown'',
                  ''page_count'' \<mapsto> MInt 0]
      | Inr m \<Rightarrow> m)"

text \<open>
  The dataclass \<^verbatim>\<open>Document\<close> without its time stamp. \<^verbatim>\<open>__post_init__\<close> fills in the file name
  and derives the file type from the extension.
\<close>

record Document =
  doc_ident :: "int option"
  doc_project_id :: "int option"
  doc_file_path :: string
  doc_file_name :: string
  doc_file_type :: FileType
  doc_file_size :: nat
  doc_title :: string
  doc_author :: string
  doc_metadata :: metadata
  doc_chapters :: "Chapter list"
  doc_processing_status :: ProcessingStatus
  doc_processing_message :: string

definition Document_post_init :: "Document \<Rightarrow> Document" where
  "Document_post_init d =
     (let d1 = (if doc_file_path d \<noteq> [] \<and> doc_file_name d = []
                then d\<lparr>doc_file_name := path_name (doc_file_path d)\<rparr> else d)
      in if doc_file_path d1 \<noteq> [] then
           (let ext = map to_lower (path_suffix (path_name (doc_file_path d1))) in
            if ext = ''.pdf'' then d1\<lparr>doc_file_type := PDF\<rparr>
            else if ext = ''.epub'' then d1\<lparr>doc_file_type := EPUB\<rparr>
            else d1)
         else d1)"

text \<open>
  \<^verbatim>\<open>metadata.get(key, default)\<close> for the two text keys (the dictionary never holds an \<^verbatim>\<open>int\<close>
  under them).
\<close>

definition metadata_get_str :: "metadata \<Rightarrow> string \<Rightarrow> string \<Rightarrow> string" where
  "metadata_get_str m key dflt =
     (case m key of Some (MStr s) \<Rightarrow> s | Some (MInt i) \<Rightarrow> str_int i | None \<Rightarrow> dflt)"

text \<open>
  \<^verbatim>\<open>read_pdf_document\<close>: a missing file raises \<^verbatim>\<open>FileProcessingError\<close>; else the document is
  built from the metadata. The path is kept as it is given.
\<close>

definition read_pdf_document :: "string \<Rightarrow> fs_entry \<Rightarrow> py_error + Document" where
  "read_pdf_document path entry =
     (case entry of
        Missing \<Rightarrow> Inl FileProcessingError
      | File st_size opened \<Rightarrow>
          (let metadata = extract_pdf_metadata path opened in
           Inr (Document_post_init
             \<lparr>doc_ident = None, doc_project_id = None,
              doc_file_path = path,
              doc_file_name = path_name path,
              doc_file_type = UNKNOWN,
              doc_file_size = st_size,
              doc_title = metadata_get_str metadata ''title'' (path_stem (path_name path)),
              doc_author = metadata_get_str metadata ''author'' [],
              doc_metadata = metadata,
              doc_chapters = [],
              doc_processing_status = PENDING,
              doc_processing_message = []\<rparr>)))"

text \<open>Two readable files of three pages: one without information dictionary, one with a title only.\<close>

definition plain_reader :: pdf_reader where
  "plain_reader =
     \<lparr>reader_pages = Returns 3, reader_metadata = Returns None, reader_header = Returns None\<rparr>"

definition titled_reader :: pdf_reader where
  "titled_reader =
     \<lparr>reader_pages = Returns 3, reader_metadata = Returns (Some [''/Title'' \<mapsto> ''A Book'']),
      reader_header = Returns None\<rparr>"

section \<open>Chapter file names (utils/file\_utils.py)\<close>

text \<open>\<^verbatim>\<open>f"{n:02d}"\<close>: at least two characters, padded with a zero.\<close>

definition fmt02d :: "int \<Rightarrow> string" where
  "fmt02d n =
     (if n < 0 then CHR ''-'' # str_nat (nat (- n))
      else if n < 10 then CHR ''0'' # str_nat (nat n)
      else str_nat (nat n))"

text \<open>\<^verbatim>\<open>s.endswith(e)\<close>\<close>

definition endswith :: "string \<Rightarrow> string \<Rightarrow> bool" where
  "endswith s e = (length e \<le> length s \<and> drop (length s - length e) s = e)"

text \<open>
  \<^verbatim>\<open>get_safe_chapter_filename\<close>. The label of a chapter without title is built from two
  characters outside ASCII; they are the parameters \<open>dai\<close> and \<open>sho\<close>, one character each as in
  the source. \<^verbatim>\<open>filename[:-len(extension)]\<close> is empty for an empty extension. Nothing in the
  \<^verbatim>\<open>try\<close> block raises on strings and an \<^verbatim>\<open>int\<close>.
\<close>

definition get_safe_chapter_filename ::
  "char \<Rightarrow> char \<Rightarrow> string \<Rightarrow> int \<Rightarrow> string \<Rightarrow> string \<Rightarrow> string" where
  "get_safe_chapter_filename dai sho document_title number ch_title extension =
     (let filename =
            (if ch_title \<noteq> [] \<and> strip_space ch_title \<noteq> []
             then fmt02d number @ ''_'' @ sanitize_filename ch_title
             else sanitize_filename document_title @ [CHR ''_'', dai] @ fmt02d number
                    @ [sho]);
          filename1 =
            (if \<not> endswith (map to_lower filename) (map to_lower extension)
             then filename @ extension else filename)
      in if length filename1 > 200
         then (let name_part = (if extension = [] then []
                                else take (length filename1 - length extension) filename1)
               in take 190 name_part @ ''...'' @ extension)
         else filename1)"

section \<open>Splitting (processors/pdf\_processor.py, epub\_processor.py)\<close>

record SplitSettings =
  detection_method :: ChapterDetectionMethod
  target_heading_levels :: "string list"
  custom_xpath :: string
  output_directory :: string
  output_format :: OutputFormat
  naming_pattern :: string
  preserve_metadata :: bool
  auto_number_chapters :: bool
  overwrite_existing :: bool
  create_subdirectories :: bool

definition get_output_extension :: "SplitSettings \<Rightarrow> FileType \<Rightarrow> string" where
  "get_output_extension settings input_file_type =
     (case output_format settings of
        SAME_AS_INPUT \<Rightarrow> if input_file_type = PDF then ''.pdf'' else ''.epub''
      | OUT_PDF \<Rightarrow> ''.pdf''
      | OUT_EPUB \<Rightarrow> ''.epub'')"

definition requires_format_conversion :: "SplitSettings \<Rightarrow> FileType \<Rightarrow> bool" where
  "requires_format_conversion settings input_file_type =
     (case output_format settings of
        SAME_AS_INPUT \<Rightarrow> False
      | OUT_PDF \<Rightarrow> input_file_type \<noteq> PDF
      | OUT_EPUB \<Rightarrow> input_file_type \<noteq> EPUB)"

text \<open>The two validity properties of \<^verbatim>\<open>Chapter\<close>.\<close>

definition is_valid_pdf_chapter :: "Chapter \<Rightarrow> bool" where
  "is_valid_pdf_chapter c =
     (case (start_page c, end_page c) of
        (Some s, Some e) \<Rightarrow> s \<le> e \<and> s > 0
      | _ \<Rightarrow> False)"

definition is_valid_epub_chapter :: "Chapter \<Rightarrow> bool" where
  "is_valid_epub_chapter c = (xpath c \<noteq> [] \<or> html_tag c \<noteq> [])"

text \<open>
  What the logger receives. The messages of the source are not ASCII, so an event stands for the
  call with its level and its arguments.
\<close>

datatype log_event =
    WarnConversionUnsupported
  | WarnInvalidChapter string
  | WarnPageAdd int
  | WarnMetadata
  | InfoChapterDone string string
  | ErrorSave string
  | ErrorChapterFailed string
  | WarnChapterProcessing string
  | WarnNoContent string
  | WarnItemAdd
  | ErrorExtractSave

text \<open>
  The world of one split: the existing paths, the files written with what went into them (page
  indices for a PDF, item names for an EPUB), the log, and the list \<^verbatim>\<open>output_files\<close>.
\<close>

datatype output_content = PdfPages "int list" | EpubItems "string list"

record split_state =
  existing :: "path set"
  written :: "(path \<times> output_content) list"
  logged :: "log_event list"
  output_files :: "string list"

text \<open>\<^verbatim>\<open>str(path)\<close> of a file in a directory.\<close>

definition path_str :: "path \<Rightarrow> string" where
  "path_str p = parent p @ ''/'' @ name p"

text \<open>
  How saving a file ends: it is written; opening it fails and nothing is created; or writing
  fails after the file was created.
\<close>

datatype save_outcome = Saved | OpenFailed | WriteFailed

text \<open>
  What the environment does while one PDF chapter is handled: whether something before the save
  block raises (\<^verbatim>\<open>ensure_unique_filename\<close>, the writer), the pages whose copy raises, whether
  setting the metadata raises, how saving ends, and the clock for the timestamp name.
\<close>

record pdf_chapter_io =
  prepare_raises :: bool
  bad_pages :: "int set"
  metadata_raises :: bool
  save :: save_outcome
  clock :: int

text \<open>\<^verbatim>\<open>validate_output_directory\<close>: an empty directory string is invalid, the rest is the
  answer of the file system.\<close>

definition validate_output_directory :: "bool \<Rightarrow> string \<Rightarrow> bool" where
  "validate_output_directory dir_usable directory = (directory \<noteq> [] \<and> dir_usable)"

text \<open>The body of the loop of \<^verbatim>\<open>split_pdf_by_chapters\<close> for one chapter.\<close>

definition split_pdf_chapter ::
  "char \<Rightarrow> char \<Rightarrow> Document \<Rightarrow> SplitSettings \<Rightarrow> string \<Rightarrow> nat \<Rightarrow> Chapter \<times> pdf_chapter_io
     \<Rightarrow> split_state \<Rightarrow> Chapter \<times> split_state" where
  "split_pdf_chapter dai sho document settings output_extension total_pages job st =
     (let chapter = fst job; io = snd job in
      if \<not> is_valid_pdf_chapter chapter
      then (chapter, st\<lparr>logged := logged st @ [WarnInvalidChapter (title chapter)]\<rparr>)
      else if prepare_raises io
      then (chapter\<lparr>split_status := ERROR\<rparr>,
            st\<lparr>logged := logged st @ [WarnChapterProcessing (title chapter)]\<rparr>)
      else
        (let safe_filename = get_safe_chapter_filename dai sho (doc_title document)
                               (chapter_number chapter) (title chapter) output_extension;
             output_path = ensure_unique_filename (existing st) (clock io)
                             (Path (output_directory settings) safe_filename);
             page_range = [the (start_page chapter) - 1 .. the (end_page chapter) - 1];
             in_range = filter (\<lambda>p. 0 \<le> p \<and> p < int total_pages) page_range;
             pages = filter (\<lambda>p. p \<notin> bad_pages io) in_range;
             logged1 = logged st @ map WarnPageAdd (filter (\<lambda>p. p \<in> bad_pages io) in_range);
             logged2 = (if preserve_metadata settings \<and> metadata_raises io
                     then logged1 @ [WarnMetadata] else logged1)
         in case save io of
              Saved \<Rightarrow>
                (chapter\<lparr>output_file_path := path_str output_path, split_status := SUCCESS\<rparr>,
                 st\<lparr>existing := insert output_path (existing st),
                    written := written st @ [(output_path, PdfPages pages)],
                    logged := logged2 @ [InfoChapterDone (title chapter) (name output_path)],
                    output_files := output_files st @ [path_str output_path]\<rparr>)
            | OpenFailed \<Rightarrow>
                (chapter\<lparr>split_status := ERROR\<rparr>,
                 st\<lparr>logged := logged2 @ [ErrorSave (title chapter)]\<rparr>)
            | WriteFailed \<Rightarrow>
                (chapter\<lparr>split_status := ERROR\<rparr>,
                 st\<lparr>existing := insert output_path (existing st),
                    logged := logged2 @ [ErrorSave (title chapter)]\<rparr>)))"

text \<open>The loop \<^verbatim>\<open>for chapter in chapters\<close>; each chapter comes with what the environment does.\<close>

fun split_pdf_loop ::
  "char \<Rightarrow> char \<Rightarrow> Document \<Rightarrow> SplitSettings \<Rightarrow> string \<Rightarrow> nat \<Rightarrow> (Chapter \<times> pdf_chapter_io) list
     \<Rightarrow> split_state \<Rightarrow> Chapter list \<times> split_state" where
  "split_pdf_loop dai sho document settings output_extension total_pages [] st = ([], st)"
| "split_pdf_loop dai sho document settings output_extension total_pages (job # jobs) st =
     (let (chapter1, st1) =
            split_pdf_chapter dai sho document settings output_extension total_pages job st;
          (chapters1, st2) =
            split_pdf_loop dai sho document settings output_extension total_pages jobs st1
      in (chapter1 # chapters1, st2))"

text \<open>
  The environment of a split: whether the output directory can be used, and the source as it
  opens (\<open>None\<close> when opening or parsing it raises), for a PDF its number of pages.
\<close>

record pdf_split_env =
  dir_usable :: bool
  source_pages :: "nat option"
  files_before :: "path set"

definition pdf_output_extension :: "SplitSettings \<Rightarrow> Document \<Rightarrow> string" where
  "pdf_output_extension settings document =
     (if requires_format_conversion settings (doc_file_type document) \<and>
         output_format settings = OUT_EPUB
      then ''.pdf''
      else get_output_extension settings (doc_file_type document))"

text \<open>
  \<^verbatim>\<open>split_pdf_by_chapters\<close>: \<open>Inl\<close> is the \<^verbatim>\<open>FileProcessingError\<close> that leaves the function, \<open>Inr\<close>
  the returned list of paths with the chapters and the world after the call.
\<close>

definition split_pdf_by_chapters ::
  "char \<Rightarrow> char \<Rightarrow> pdf_split_env \<Rightarrow> Document \<Rightarrow> (Chapter \<times> pdf_chapter_io) list \<Rightarrow> SplitSettings
     \<Rightarrow> py_error + (string list \<times> Chapter list \<times> split_state)" where
  "split_pdf_by_chapters dai sho env document jobs settings =
     (if \<not> validate_output_directory (dir_usable env) (output_directory settings)
      then Inl FileProcessingError
      else
        (let st0 = \<lparr>existing = files_before env, written = [],
                    logged = (if requires_format_conversion settings (doc_file_type document) \<and>
                              output_format settings = OUT_EPUB
                           then [WarnConversionUnsupported] else []),
                    output_files = []\<rparr>
         in case source_pages env of
              None \<Rightarrow> Inl FileProcessingError
            | Some total_pages \<Rightarrow>
                (let (chapters1, st1) =
                       split_pdf_loop dai sho document settings
                         (pdf_output_extension settings document) total_pages jobs st0
                 in Inr (output_files st1, chapters1, st1))))"

text \<open>\<^verbatim>\<open>a in b\<close> for strings.\<close>

fun is_substring :: "string \<Rightarrow> string \<Rightarrow> bool" where
  "is_substring a [] = (a = [])"
| "is_substring a (b # bs) = (take (length a) (b # bs) = a \<or> is_substring a bs)"

text \<open>
  What the environment does while one EPUB chapter is handled: whether something before the
  extraction raises, whether listing the items of the book raises, whether adding an item to the
  new book raises, how writing the new book ends, and the clock.
\<close>

record epub_chapter_io =
  epub_prepare_raises :: bool
  items_raise :: bool
  item_add_raises :: bool
  epub_save :: save_outcome
  epub_clock :: int

text \<open>
  \<^verbatim>\<open>_get_chapter_items\<close>: the first item whose name contains the reference of the chapter or is
  contained in it, else the first item of the book, and nothing when listing the items raises.
\<close>

definition item_name :: "content_item \<Rightarrow> string" where
  "item_name item = (case file_name item of Some n \<Rightarrow> n | None \<Rightarrow> [])"

definition get_chapter_items :: "content_item list \<Rightarrow> bool \<Rightarrow> Chapter \<Rightarrow> content_item list" where
  "get_chapter_items all_items listing_raises chapter =
     (if listing_raises then []
      else (case List.find (\<lambda>item. is_substring (xpath chapter) (item_name item) \<or>
                                    is_substring (item_name item) (xpath chapter)) all_items of
              Some item \<Rightarrow> [item]
            | None \<Rightarrow> (case all_items of [] \<Rightarrow> [] | first # others \<Rightarrow> [first])))"

text \<open>
  \<^verbatim>\<open>_extract_and_save_chapter\<close>: the returned flag and the world after the call. Every exception
  inside ends in the flag \<open>False\<close>.
\<close>

definition extract_and_save_chapter ::
  "content_item list \<Rightarrow> Chapter \<Rightarrow> path \<Rightarrow> epub_chapter_io \<Rightarrow> split_state \<Rightarrow> bool \<times> split_state"
  where
  "extract_and_save_chapter source_book chapter output_path io st =
     (let chapter_items = get_chapter_items source_book (items_raise io) chapter in
      if chapter_items = []
      then (False, st\<lparr>logged := logged st @ [WarnNoContent (title chapter)]\<rparr>)
      else
        (let log1 = (if item_add_raises io then logged st @ [WarnItemAdd] else logged st) in
         case epub_save io of
           Saved \<Rightarrow>
             (True, st\<lparr>existing := insert output_path (existing st),
                       written := written st @
                         [(output_path, EpubItems (map item_name chapter_items))],
                       logged := log1\<rparr>)
         | OpenFailed \<Rightarrow> (False, st\<lparr>logged := log1 @ [ErrorExtractSave]\<rparr>)
         | WriteFailed \<Rightarrow>
             (False, st\<lparr>existing := insert output_path (existing st),
                        logged := log1 @ [ErrorExtractSave]\<rparr>)))"

text \<open>The body of the loop of \<^verbatim>\<open>split_epub_by_chapters\<close> for one chapter.\<close>

definition split_epub_chapter ::
  "char \<Rightarrow> char \<Rightarrow> Document \<Rightarrow> SplitSettings \<Rightarrow> string \<Rightarrow> content_item list
     \<Rightarrow> Chapter \<times> epub_chapter_io \<Rightarrow> split_state \<Rightarrow> Chapter \<times> split_state" where
  "split_epub_chapter dai sho document settings output_extension source_book job st =
     (let chapter = fst job; io = snd job in
      if xpath chapter = []
      then (chapter, st\<lparr>logged := logged st @ [WarnInvalidChapter (title chapter)]\<rparr>)
      else if epub_prepare_raises io
      then (chapter\<lparr>split_status := ERROR\<rparr>,
            st\<lparr>logged := logged st @ [WarnChapterProcessing (title chapter)]\<rparr>)
      else
        (let safe_filename = get_safe_chapter_filename dai sho (doc_title document)
                               (chapter_number chapter) (title chapter) output_extension;
             output_path = ensure_unique_filename (existing st) (epub_clock io)
                             (Path (output_directory settings) safe_filename);
             (success, st1) = extract_and_save_chapter source_book chapter output_path io st
         in if success
            then (chapter\<lparr>output_file_path := path_str output_path, split_status := SUCCESS\<rparr>,
                  st1\<lparr>logged := logged st1 @ [InfoChapterDone (title chapter) (name output_path)],
                      output_files := output_files st1 @ [path_str output_path]\<rparr>)
            else (chapter\<lparr>split_status := ERROR\<rparr>,
                  st1\<lparr>logged := logged st1 @ [ErrorChapterFailed (title chapter)]\<rparr>)))"

fun split_epub_loop ::
  "char \<Rightarrow> char \<Rightarrow> Document \<Rightarrow> SplitSettings \<Rightarrow> string \<Rightarrow> content_item list
     \<Rightarrow> (Chapter \<times> epub_chapter_io) list \<Rightarrow> split_state \<Rightarrow> Chapter list \<times> split_state" where
  "split_epub_loop dai sho document settings output_extension source_book [] st = ([], st)"
| "split_epub_loop dai sho document settings output_extension source_book (job # jobs) st =
     (let (chapter1, st1) =
            split_epub_chapter dai sho document settings output_extension source_book job st;
          (chapters1, st2) =
            split_epub_loop dai sho document settings output_extension source_book jobs st1
      in (chapter1 # chapters1, st2))"

record epub_split_env =
  epub_dir_usable :: bool
  source_items :: "content_item list option"
  epub_files_before :: "path set"

definition epub_output_extension :: "SplitSettings \<Rightarrow> Document \<Rightarrow> string" where
  "epub_output_extension settings document =
     (if requires_format_conversion settings (doc_file_type document) \<and>
         output_format settings = OUT_PDF
      then ''.epub''
      else get_output_extension settings (doc_file_type document))"

text \<open>\<^verbatim>\<open>split_epub_by_chapters\<close>, with the same reading of the result as for a PDF.\<close>

definition split_epub_by_chapters ::
  "char \<Rightarrow> char \<Rightarrow> epub_split_env \<Rightarrow> Document \<Rightarrow> (Chapter \<times> epub_chapter_io) list
     \<Rightarrow> SplitSettings \<Rightarrow> py_error + (string list \<times> Chapter list \<times> split_state)" where
  "split_epub_by_chapters dai sho env document jobs settings =
     (if \<not> validate_output_directory (epub_dir_usable env) (output_directory settings)
      then Inl FileProcessingError
      else
        (let st0 = \<lparr>existing = epub_files_before env, written = [],
                    logged = (if requires_format_conversion settings (doc_file_type document) \<and>
                                 output_format settings = OUT_PDF
                              then [WarnConversionUnsupported] else []),
                    output_files = []\<rparr>
         in case source_items env of
              None \<Rightarrow> Inl FileProcessingError
            | Some source_book \<Rightarrow>
                (let (chapters1, st1) =
                       split_epub_loop dai sho document settings
                         (epub_output_extension settings document) source_book jobs st0
                 in Inr (output_files st1, chapters1, st1))))"
text \<open>
  When the handling of a valid chapter fails: something before the save block raises, or the file
  is not saved; for an EPUB also when no content item can be taken from the book.
\<close>

definition pdf_chapter_fails :: "pdf_chapter_io \<Rightarrow> bool" where
  "pdf_chapter_fails io = (prepare_raises io \<or> save io \<noteq> Saved)"

definition epub_chapter_fails :: "content_item list \<Rightarrow> Chapter \<Rightarrow> epub_chapter_io \<Rightarrow> bool" where
  "epub_chapter_fails source_book chapter io =
     (epub_prepare_raises io \<or> get_chapter_items source_book (items_raise io) chapter = [] \<or>
      epub_save io \<noteq> Saved)"
text \<open>Two worlds with the same files and the same list of output paths; the logs may differ.\<close>

definition same_files :: "split_state \<Rightarrow> split_state \<Rightarrow> bool" where
  "same_files st st' =
     (existing st = existing st' \<and> written st = written st' \<and> output_files st = output_files st')"

text \<open>A world with further events in front of its log.\<close>

definition prepend_log :: "log_event list \<Rightarrow> split_state \<Rightarrow> split_state" where
  "prepend_log events st = st\<lparr>logged := events @ logged st\<rparr>"

text \<open>
  The pre-check of the PDF extractor in the words of the specification: a page bound is missing,
  the first page is after the last one, or the first page is not positive.
\<close>

definition pdf_precheck_rejects :: "Chapter \<Rightarrow> bool" where
  "pdf_precheck_rejects c =
     (case start_page c of
        None \<Rightarrow> True
      | Some s \<Rightarrow> (case end_page c of None \<Rightarrow> True | Some e \<Rightarrow> s > e \<or> s \<le> 0))"

text \<open>A small split: three chapters, the second of which cannot be saved.\<close>

definition sample_settings :: SplitSettings where
  "sample_settings =
     \<lparr>detection_method = AUTO, target_heading_levels = [''h1'', ''h2''], custom_xpath = [],
      output_directory = ''out'', output_format = SAME_AS_INPUT, naming_pattern = ''title'',
      preserve_metadata = True, auto_number_chapters = True, overwrite_existing = False,
      create_subdirectories = True\<rparr>"

definition sample_document :: "FileType \<Rightarrow> Document" where
  "sample_document t =
     \<lparr>doc_ident = None, doc_project_id = None, doc_file_path = ''in/book'',
      doc_file_name = ''book'', doc_file_type = t, doc_file_size = 10, doc_title = ''Book'',
      doc_author = ''unknown'', doc_metadata = Map.empty, doc_chapters = [],
      doc_processing_status = PENDING, doc_processing_message = []\<rparr>"

definition sample_chapter :: "int \<Rightarrow> string \<Rightarrow> int option \<Rightarrow> string \<Rightarrow> Chapter" where
  "sample_chapter k t p x =
     Chapter_default\<lparr>chapter_number := k, title := t, start_page := p, end_page := p,
       xpath := x\<rparr>"

definition pdf_io :: "save_outcome \<Rightarrow> pdf_chapter_io" where
  "pdf_io outcome =
     \<lparr>prepare_raises = False, bad_pages = {}, metadata_raises = False, save = outcome,
      clock = 0\<rparr>"

definition epub_io :: "save_outcome \<Rightarrow> epub_chapter_io" where
  "epub_io outcome =
     \<lparr>epub_prepare_raises = False, items_raise = False, item_add_raises = False,
      epub_save = outcome, epub_clock = 0\<rparr>"

definition sample_pdf_env :: pdf_split_env where
  "sample_pdf_env = \<lparr>dir_usable = True, source_pages = Some 3, files_before = {}\<rparr>"

definition sample_book :: "content_item list" where
  "sample_book =
     [\<lparr>file_name = Some ''a.xhtml'', item_content = Some []\<rparr>,
      \<lparr>file_name = Some ''b.xhtml'', item_content = Some []\<rparr>,
      \<lparr>file_name = Some ''c.xhtml'', item_content = Some []\<rparr>]"

definition sample_epub_env :: epub_split_env where
  "sample_epub_env =
     \<lparr>epub_dir_usable = True, source_items = Some sample_book, epub_files_before = {}\<rparr>"

definition sample_pdf_jobs :: "(Chapter \<times> pdf_chapter_io) list" where
  "sample_pdf_jobs =
     [(sample_chapter 1 ''A'' (Some 1) [], pdf_io Saved),
      (sample_chapter 2 ''B'' (Some 2) [], pdf_io OpenFailed),
      (sample_chapter 3 ''C'' (Some 3) [], pdf_io Saved)]"

definition sample_epub_jobs :: "(Chapter \<times> epub_chapter_io) list" where
  "sample_epub_jobs =
     [(sample_chapter 1 ''A'' None ''a.xhtml'', epub_io Saved),
      (sample_chapter 2 ''B'' None ''b.xhtml'', epub_io WriteFailed),
      (sample_chapter 3 ''C'' None ''c.xhtml'', epub_io Saved)]"


section \<open>Properties of normalisation\<close>

text \<open>
  C2. After \<^verbatim>\<open>_normalize_chapter_numbers\<close> the chapter numbers are exactly 1, 2, ..., N in list
  order, whatever the numbers were before and for every length N, the empty list included.
\<close>

theorem normalize_chapter_numbers_contiguous:
  "map chapter_number (normalize_chapter_numbers chapters) = map int [1..<Suc (length chapters)]"
  by (rule nth_equalityI)
     (simp_all add: normalize_chapter_numbers_def nth_enumerate_eq del: upt_Suc)

subsection \<open>Boundary resolution\<close>

lemma set_end_step:
  assumes starts: "\<forall>c \<in> set chapters. start_page c \<noteq> None" and i: "i < length chapters"
  shows "set_chapter_end_pages_from i chapters total_pages =
         set_chapter_end_pages_from (i + 1)
           (chapters[i := (chapters ! i)\<lparr>end_page := Some (resolved_end chapters total_pages i)\<rparr>])
           total_pages"
proof -
  obtain s where s: "start_page (chapters ! i) = Some s"
    using i starts by (metis nth_mem not_None_eq)
  have nxt: "\<exists>t. start_page (chapters ! (i + 1)) = Some t" if "i < length chapters - 1"
    using starts that by (metis Suc_eq_plus1 less_diff_conv nth_mem not_None_eq)
  show ?thesis
  proof (cases "i < length chapters - 1")
    case True
    with nxt obtain t where t: "start_page (chapters ! Suc i) = Some t" by auto
    show ?thesis
      by (subst set_chapter_end_pages_from.simps)
         (simp add: i s t True resolved_end_def Let_def max_def)
  next
    case False
    then have "\<not> i < length chapters - Suc 0" by simp
    then show ?thesis
      by (subst set_chapter_end_pages_from.simps)
         (simp add: i s resolved_end_def Let_def max_def)
  qed
qed

lemma set_end_done:
  "\<not> i < length chapters \<Longrightarrow> set_chapter_end_pages_from i chapters total_pages = Inr chapters"
  by (subst set_chapter_end_pages_from.simps) simp

lemma set_end_loop:
  assumes "\<forall>c \<in> set chapters. start_page c \<noteq> None"
  shows "\<exists>cs. set_chapter_end_pages_from i chapters total_pages = Inr cs \<and>
         length cs = length chapters \<and>
         (\<forall>j < length chapters. cs ! j =
             (if j < i then chapters ! j
              else (chapters ! j)\<lparr>end_page := Some (resolved_end chapters total_pages j)\<rparr>))"
  using assms
proof (induction "length chapters - i" arbitrary: i chapters)
  case 0
  then show ?case by (simp add: set_end_done)
next
  case (Suc n)
  then have i: "i < length chapters" by simp
  define chapters2 where
    "chapters2 = chapters[i := (chapters ! i)\<lparr>end_page := Some (resolved_end chapters total_pages i)\<rparr>]"
  have sp: "start_page (chapters2 ! j) = start_page (chapters ! j)" if "j < length chapters" for j
    using that by (cases "j = i") (simp_all add: chapters2_def)
  have len: "length chapters2 = length chapters" by (simp add: chapters2_def)
  have starts: "\<forall>c \<in> set chapters2. start_page c \<noteq> None"
  proof
    fix c assume "c \<in> set chapters2"
    then obtain j where "j < length chapters2" "c = chapters2 ! j" by (metis in_set_conv_nth)
    with sp len Suc.prems show "start_page c \<noteq> None" by (metis nth_mem)
  qed
  have re: "resolved_end chapters2 total_pages j = resolved_end chapters total_pages j"
    if "j < length chapters" for j
    using that sp len by (auto simp: resolved_end_def)
  have "n = length chapters2 - (i + 1)" using Suc.hyps(2) len by simp
  from Suc.hyps(1)[OF this starts] obtain cs where
    cs: "set_chapter_end_pages_from (i + 1) chapters2 total_pages = Inr cs"
        "length cs = length chapters2"
        "\<forall>j < length chapters2. cs ! j =
             (if j < i + 1 then chapters2 ! j
              else (chapters2 ! j)\<lparr>end_page := Some (resolved_end chapters2 total_pages j)\<rparr>)"
    by blast
  have "set_chapter_end_pages_from i chapters total_pages = Inr cs"
    using set_end_step[OF Suc.prems i] cs(1) by (simp add: chapters2_def)
  moreover have "cs ! j =
             (if j < i then chapters ! j
              else (chapters ! j)\<lparr>end_page := Some (resolved_end chapters total_pages j)\<rparr>)"
    if j: "j < length chapters" for j
  proof (cases "j = i")
    case True
    then show ?thesis using cs(3) len j i by (simp add: chapters2_def)
  next
    case False
    then show ?thesis using cs(3) len j i re[OF j] by (auto simp: chapters2_def)
  qed
  ultimately show ?case using cs(2) len by simp
qed

lemma set_chapter_end_pages_char:
  assumes "\<forall>c \<in> set chapters. start_page c \<noteq> None"
  shows "\<exists>cs. set_chapter_end_pages chapters total_pages = Inr cs \<and>
         length cs = length chapters \<and>
         (\<forall>j < length chapters. cs ! j =
              (chapters ! j)\<lparr>end_page := Some (resolved_end chapters total_pages j)\<rparr>)"
  using set_end_loop[OF assms, of 0 total_pages] by (simp add: set_chapter_end_pages_def)

text \<open>
  C1 as the specification states it fails on the code. Two detections on the same page (5 and 5
  in a document of 10 pages) give the first chapter the end page 5, so the next chapter does not
  start on the page after it. A single chapter detected on page 12 of a document of 10 pages keeps
  the end page 12, not the page count.
\<close>

theorem set_chapter_end_pages_counterexample:
  "set_chapter_end_pages [pdf_chapter 5, pdf_chapter 5] 10 =
     Inr [pdf_chapter 5, (pdf_chapter 5)\<lparr>end_page := Some 10\<rparr>] \<and>
   \<not> spec_boundaries 10 [pdf_chapter 5, (pdf_chapter 5)\<lparr>end_page := Some 10\<rparr>] \<and>
   set_chapter_end_pages [pdf_chapter 12] 10 = Inr [pdf_chapter 12] \<and>
   \<not> spec_boundaries 10 [pdf_chapter 12]"
  by (simp add: set_chapter_end_pages_def set_chapter_end_pages_from.simps spec_boundaries_def
        pdf_chapter_def Chapter_default_def)

text \<open>
  C1, amended. For a non-empty list of chapters that all have a start page, boundary resolution
  returns (it raises nothing), keeps every start page, and sets every end page to the larger of
  the chapter's own start page and the page before the next chapter's start (the page count for
  the last chapter). So every start is at most its end; an end is directly followed by the next
  start whenever the next chapter starts on a later page; and the last end is the page count
  whenever the last chapter starts within the document.
\<close>

theorem set_chapter_end_pages_boundaries:
  assumes "chapters \<noteq> []" and "\<forall>c \<in> set chapters. start_page c \<noteq> None"
  shows "\<exists>cs. set_chapter_end_pages chapters total_pages = Inr cs \<and>
           length cs = length chapters \<and>
           (\<forall>i < length cs.
              start_page (cs ! i) = start_page (chapters ! i) \<and>
              end_page (cs ! i) = Some (resolved_end chapters total_pages i) \<and>
              the (start_page (cs ! i)) \<le> the (end_page (cs ! i))) \<and>
           (\<forall>i < length cs - 1.
              the (start_page (cs ! i)) < the (start_page (cs ! (i + 1))) \<longrightarrow>
              the (end_page (cs ! i)) + 1 = the (start_page (cs ! (i + 1)))) \<and>
           (the (start_page (last cs)) \<le> total_pages \<longrightarrow>
              the (end_page (last cs)) = total_pages)"
proof -
  from set_chapter_end_pages_char[OF assms(2), of total_pages] obtain cs where
    cs: "set_chapter_end_pages chapters total_pages = Inr cs" "length cs = length chapters"
        "\<forall>j < length chapters. cs ! j =
              (chapters ! j)\<lparr>end_page := Some (resolved_end chapters total_pages j)\<rparr>"
    by blast
  have nth: "start_page (cs ! i) = start_page (chapters ! i) \<and>
             end_page (cs ! i) = Some (resolved_end chapters total_pages i)"
    if "i < length chapters" for i
    using cs(3) that by simp
  have a: "the (start_page (cs ! i)) \<le> the (end_page (cs ! i))" if "i < length chapters" for i
    using nth[OF that] by (simp add: resolved_end_def)
  have b: "the (end_page (cs ! i)) + 1 = the (start_page (cs ! (i + 1)))"
    if "i < length cs - 1" "the (start_page (cs ! i)) < the (start_page (cs ! (i + 1)))" for i
  proof -
    have "i < length chapters" "i + 1 < length chapters" using that(1) cs(2) by simp_all
    with nth[of i] nth[of "i + 1"] that show ?thesis
      by (simp add: resolved_end_def cs(2))
  qed
  have c: "the (end_page (last cs)) = total_pages" if "the (start_page (last cs)) \<le> total_pages"
  proof -
    have ne: "cs \<noteq> []" using assms(1) cs(2) by auto
    have l: "last cs = cs ! (length chapters - 1)" using ne cs(2) by (simp add: last_conv_nth)
    have "length chapters - 1 < length chapters" using assms(1) by simp
    from nth[OF this] that show ?thesis by (simp add: l resolved_end_def)
  qed
  show ?thesis using cs(1,2) nth a b c by auto
qed

theorem set_chapter_end_pages_boundaries_witness:
  "[pdf_chapter 1, pdf_chapter 10, pdf_chapter 20] \<noteq> [] \<and>
   list_all (\<lambda>c. start_page c \<noteq> None) [pdf_chapter 1, pdf_chapter 10, pdf_chapter 20] \<and>
   set_chapter_end_pages [pdf_chapter 1, pdf_chapter 10, pdf_chapter 20] 25 =
     Inr [(pdf_chapter 1)\<lparr>end_page := Some 9\<rparr>, (pdf_chapter 10)\<lparr>end_page := Some 19\<rparr>,
          (pdf_chapter 20)\<lparr>end_page := Some 25\<rparr>]"
proof -
  have h1: "[pdf_chapter 1, pdf_chapter 10, pdf_chapter 20] \<noteq> []" by simp
  have h2: "\<forall>c \<in> set [pdf_chapter 1, pdf_chapter 10, pdf_chapter 20]. start_page c \<noteq> None"
    by (simp add: pdf_chapter_def)
  from set_chapter_end_pages_boundaries[OF h1 h2, of 25] obtain cs where
    cs: "set_chapter_end_pages [pdf_chapter 1, pdf_chapter 10, pdf_chapter 20] 25 = Inr cs"
        "length cs = 3"
        "\<forall>i < length cs. start_page (cs ! i) =
             start_page ([pdf_chapter 1, pdf_chapter 10, pdf_chapter 20] ! i)"
    by auto
  have "set_chapter_end_pages [pdf_chapter 1, pdf_chapter 10, pdf_chapter 20] 25 =
     Inr [(pdf_chapter 1)\<lparr>end_page := Some 9\<rparr>, (pdf_chapter 10)\<lparr>end_page := Some 19\<rparr>,
          (pdf_chapter 20)\<lparr>end_page := Some 25\<rparr>]"
    by (simp add: set_chapter_end_pages_def set_chapter_end_pages_from.simps
          pdf_chapter_def Chapter_default_def)
  with h1 h2 cs show ?thesis by simp
qed


section \<open>Properties of unique file names\<close>

lemma rfind_ge: "- 1 \<le> rfind c s"
  by (induction s) (auto simp: Let_def)

lemma rfind_notin: "c \<notin> set s \<Longrightarrow> rfind c s = - 1"
  by (induction s) (auto simp: Let_def)

lemma rfind_in: "c \<in> set s \<Longrightarrow> 0 \<le> rfind c s"
  by (induction s) (auto simp: Let_def)

lemma rfind_append:
  "rfind c (a @ b) = (if c \<in> set b then int (length a) + rfind c b else rfind c a)"
  by (induction a) (auto simp: Let_def rfind_notin dest: rfind_in)

lemma rfind_lt: "rfind c s < int (length s)"
  by (induction s) (auto simp: Let_def)

lemma rfind_nth: "0 \<le> rfind c s \<Longrightarrow> s ! nat (rfind c s) = c \<and> c \<notin> set (drop (nat (rfind c s) + 1) s)"
proof (induction s)
  case Nil
  then show ?case by simp
next
  case (Cons x xs)
  show ?case
  proof (cases "0 \<le> rfind c xs")
    case True
    then have "rfind c (x # xs) = rfind c xs + 1" by (simp add: Let_def)
    moreover have "nat (rfind c xs + 1) = Suc (nat (rfind c xs))" using True by simp
    ultimately show ?thesis using Cons.IH[OF True] by simp
  next
    case False
    then have m: "rfind c xs = - 1" using rfind_ge[of c xs] by simp
    then have "c \<notin> set xs" using rfind_in[of c xs] by auto
    with Cons.prems m show ?thesis by (auto simp: Let_def split: if_splits)
  qed
qed

lemma stem_suffix_split:
  assumes "path_suffix nm \<noteq> []"
  shows "\<exists>rest. path_suffix nm = CHR ''.'' # rest \<and> rest \<noteq> [] \<and> CHR ''.'' \<notin> set rest \<and>
         nm = path_stem nm @ path_suffix nm \<and> path_stem nm \<noteq> []"
proof -
  define i where "i = rfind CHR ''.'' nm"
  have c: "0 < i \<and> i < int (length nm) - 1"
    using assms by (auto simp: path_suffix_def Let_def i_def split: if_splits)
  then have suf: "path_suffix nm = drop (nat i) nm" and st: "path_stem nm = take (nat i) nm"
    by (simp_all add: path_suffix_def path_stem_def Let_def i_def)
  have n: "nm ! nat i = CHR ''.''" "CHR ''.'' \<notin> set (drop (nat i + 1) nm)"
    using rfind_nth[of "CHR ''.''" nm] c by (simp_all add: i_def)
  have lt: "nat i < length nm" using c by linarith
  have "drop (nat i) nm = nm ! nat i # drop (Suc (nat i)) nm"
    using lt by (simp add: Cons_nth_drop_Suc)
  moreover have "Suc (nat i) < length nm" using c by linarith
  then have "drop (Suc (nat i)) nm \<noteq> []" by simp
  moreover have "0 < nat i" using c by linarith
  then have "take (nat i) nm \<noteq> []" using lt by auto
  moreover have "nm = path_stem nm @ path_suffix nm" by (simp add: suf st)
  ultimately show ?thesis using n suf st by (metis Suc_eq_plus1)
qed

lemma str_nat_no_dot: "CHR ''.'' \<notin> set (str_nat n)"
proof (induction n rule: str_nat.induct)
  case (1 n)
  have d: "digit_char k \<noteq> CHR ''.''" if "k < 10" for k
  proof -
    from that have "k \<in> {0,1,2,3,4,5,6,7,8,9}" by auto
    then show ?thesis by (auto simp: digit_char_def)
  qed
  show ?case
  proof (cases "n < 10")
    case True
    then show ?thesis using d[of n] by (subst str_nat.simps) auto
  next
    case False
    then show ?thesis using 1 d[of "n mod 10"] by (subst str_nat.simps) auto
  qed
qed

lemma stem_suffix_of_append:
  assumes "a \<noteq> []" "rest \<noteq> []" "CHR ''.'' \<notin> set rest"
  shows "path_stem (a @ CHR ''.'' # rest) = a" "path_suffix (a @ CHR ''.'' # rest) = CHR ''.'' # rest"
proof -
  have rf: "rfind CHR ''.'' (a @ CHR ''.'' # rest) = int (length a)"
    using assms(3) by (simp add: rfind_append rfind_notin Let_def)
  show "path_stem (a @ CHR ''.'' # rest) = a" "path_suffix (a @ CHR ''.'' # rest) = CHR ''.'' # rest"
    using assms(1,2) unfolding path_stem_def path_suffix_def rf Let_def by simp_all
qed

lemma unique_loop_found:
  assumes "counter \<le> n" "numbered_path filepath n \<notin> fs"
    and "\<forall>m. counter \<le> m \<and> m < n \<longrightarrow> numbered_path filepath m \<in> fs" "n \<le> 9999"
  shows "unique_loop fs filepath now counter = numbered_path filepath n"
  using assms
proof (induction "n - counter" arbitrary: counter)
  case 0
  then have "counter = n" by simp
  with 0 show ?case by (subst unique_loop.simps) simp
next
  case (Suc k)
  then have lt: "counter < n" by simp
  with Suc.prems have "numbered_path filepath counter \<in> fs" by simp
  moreover have "unique_loop fs filepath now (counter + 1) = numbered_path filepath n"
    using Suc.hyps(1)[of "counter + 1"] Suc.hyps(2) Suc.prems lt by simp
  ultimately show ?case using lt Suc.prems(4)
    by (subst unique_loop.simps) (simp add: Let_def)
qed

lemma unique_loop_exhausted:
  assumes "\<forall>m. counter \<le> m \<and> m \<le> 9999 \<longrightarrow> numbered_path filepath m \<in> fs" "counter \<le> 9999"
  shows "unique_loop fs filepath now counter = timestamp_path filepath now"
  using assms
proof (induction "9999 - counter" arbitrary: counter)
  case 0
  then have "counter = 9999" by simp
  with 0 show ?case by (subst unique_loop.simps) (simp add: Let_def)
next
  case (Suc k)
  then have lt: "counter < 9999" by simp
  have "numbered_path filepath counter \<in> fs" using Suc.prems by simp
  moreover have "unique_loop fs filepath now (counter + 1) = timestamp_path filepath now"
    using Suc.hyps(1)[of "counter + 1"] Suc.hyps(2) Suc.prems lt by simp
  ultimately show ?case using lt
    by (subst unique_loop.simps) (simp add: Let_def)
qed

lemma str_int_no_dot: "CHR ''.'' \<notin> set (str_int i)"
  by (simp add: str_int_def str_nat_no_dot)

lemma tagged_stem:
  assumes tag: "CHR ''.'' \<notin> set tag"
    and nm: "nm = [] \<or> last nm \<noteq> CHR ''.''"
  shows "path_stem (path_stem nm @ tag @ path_suffix nm) = path_stem nm @ tag"
    and "path_suffix (path_stem nm @ tag @ path_suffix nm) = path_suffix nm"
proof -
  have "path_stem (path_stem nm @ tag @ path_suffix nm) = path_stem nm @ tag \<and>
        path_suffix (path_stem nm @ tag @ path_suffix nm) = path_suffix nm"
  proof (cases "path_suffix nm = []")
    case False
    from stem_suffix_split[OF False] obtain rest where
      r: "path_suffix nm = CHR ''.'' # rest" "rest \<noteq> []" "CHR ''.'' \<notin> set rest"
        "path_stem nm \<noteq> []"
      by blast
    have ne: "path_stem nm @ tag \<noteq> []" using r(4) by simp
    from stem_suffix_of_append[OF ne r(2,3)] show ?thesis by (simp add: r(1))
  next
    case True
    define i where "i = rfind CHR ''.'' nm"
    have no: "\<not> (0 < i \<and> i < int (length nm) - 1)"
    proof
      assume c: "0 < i \<and> i < int (length nm) - 1"
      then have "path_suffix nm = drop (nat i) nm" by (simp add: path_suffix_def Let_def i_def)
      moreover have "nat i < length nm" using c by linarith
      ultimately show False using True by simp
    qed
    have st: "path_stem nm = nm" using no by (auto simp: path_stem_def Let_def i_def)
    have le: "i \<le> 0"
    proof (rule ccontr)
      assume "\<not> i \<le> 0"
      then have pos: "0 < i" by simp
      have lt: "i < int (length nm)" unfolding i_def by (rule rfind_lt)
      from no pos lt have eq: "i = int (length nm) - 1" by linarith
      have "nm ! nat i = CHR ''.''" using rfind_nth[of "CHR ''.''" nm] pos by (simp add: i_def)
      moreover have ne: "nm \<noteq> []" using lt pos by auto
      moreover have "nat i = length nm - 1" using eq pos by linarith
      ultimately have "last nm = CHR ''.''" by (simp add: last_conv_nth)
      with nm ne show False by simp
    qed
    have rf: "rfind CHR ''.'' (nm @ tag) = i"
      using tag by (simp add: rfind_append i_def)
    have g: "path_stem nm @ tag @ path_suffix nm = nm @ tag"
      by (simp only: True st append_Nil2)
    have s1: "path_stem (nm @ tag) = nm @ tag"
      unfolding path_stem_def Let_def rf using le by simp
    have s2: "path_suffix (nm @ tag) = []"
      unfolding path_suffix_def Let_def rf using le by simp
    show ?thesis unfolding g by (simp only: s1 s2 st True simp_thms)
  qed
  then show "path_stem (path_stem nm @ tag @ path_suffix nm) = path_stem nm @ tag"
    and "path_suffix (path_stem nm @ tag @ path_suffix nm) = path_suffix nm"
    by simp_all
qed

lemma counter_tag_no_dot: "CHR ''.'' \<notin> set ('' ('' @ str_nat n @ '')'')"
  by (simp add: str_nat_no_dot)

lemma stamp_tag_no_dot: "CHR ''.'' \<notin> set (''_'' @ str_int now)"
  by (simp add: str_int_no_dot)

text \<open>
  C5, amended. When the path does not exist it is returned unchanged. When it exists and \<open>n\<close> is
  the smallest counter from 1 to 9999 whose numbered name is unused, the result is the path in
  the same directory whose name is the original stem, then \<open>(n)\<close> after a space, then the
  original suffix, and that path does not exist. When all the counters from 1 to 9999 are taken,
  the result is the name with the timestamp after an underscore. In both cases, when the name
  of the given path does not end with a period, the stem of the result is the original stem with
  the counter or the timestamp, and its suffix is the original suffix.
\<close>

theorem ensure_unique_filename_correct:
  "(filepath \<notin> fs \<longrightarrow> ensure_unique_filename fs now filepath = filepath) \<and>
   (filepath \<in> fs \<longrightarrow>
      (\<forall>n. 1 \<le> n \<and> n \<le> 9999 \<and> numbered_path filepath n \<notin> fs \<and>
           (\<forall>m. 1 \<le> m \<and> m < n \<longrightarrow> numbered_path filepath m \<in> fs) \<longrightarrow>
           ensure_unique_filename fs now filepath =
             Path (parent filepath)
               (path_stem (name filepath) @ '' ('' @ str_nat n @ '')'' @
                path_suffix (name filepath)) \<and>
           ensure_unique_filename fs now filepath \<notin> fs \<and>
           (name filepath = [] \<or> last (name filepath) \<noteq> CHR ''.'' \<longrightarrow>
              path_stem (name (ensure_unique_filename fs now filepath)) =
                path_stem (name filepath) @ '' ('' @ str_nat n @ '')'' \<and>
              path_suffix (name (ensure_unique_filename fs now filepath)) =
                path_suffix (name filepath))) \<and>
      ((\<forall>n. 1 \<le> n \<and> n \<le> 9999 \<longrightarrow> numbered_path filepath n \<in> fs) \<longrightarrow>
           ensure_unique_filename fs now filepath =
             Path (parent filepath)
               (path_stem (name filepath) @ ''_'' @ str_int now @ path_suffix (name filepath)) \<and>
           (name filepath = [] \<or> last (name filepath) \<noteq> CHR ''.'' \<longrightarrow>
              path_stem (name (ensure_unique_filename fs now filepath)) =
                path_stem (name filepath) @ ''_'' @ str_int now \<and>
              path_suffix (name (ensure_unique_filename fs now filepath)) =
                path_suffix (name filepath))))"
proof (intro conjI impI allI)
  assume "filepath \<notin> fs"
  then show "ensure_unique_filename fs now filepath = filepath"
    by (simp add: ensure_unique_filename_def)
next
  fix n
  assume ex: "filepath \<in> fs"
    and n: "1 \<le> n \<and> n \<le> 9999 \<and> numbered_path filepath n \<notin> fs \<and>
           (\<forall>m. 1 \<le> m \<and> m < n \<longrightarrow> numbered_path filepath m \<in> fs)"
  have r: "ensure_unique_filename fs now filepath = numbered_path filepath n"
    using ex n unique_loop_found[of 1 n filepath fs now] by (simp add: ensure_unique_filename_def)
  show "ensure_unique_filename fs now filepath =
             Path (parent filepath)
               (path_stem (name filepath) @ '' ('' @ str_nat n @ '')'' @
                path_suffix (name filepath))"
    by (simp add: r numbered_path_def)
  show "ensure_unique_filename fs now filepath \<notin> fs" using r n by simp
  assume s: "name filepath = [] \<or> last (name filepath) \<noteq> CHR ''.''"
  show "path_stem (name (ensure_unique_filename fs now filepath)) =
                path_stem (name filepath) @ '' ('' @ str_nat n @ '')''"
    using tagged_stem(1)[OF counter_tag_no_dot s, of n] by (simp add: r numbered_path_def)
  show "path_suffix (name (ensure_unique_filename fs now filepath)) = path_suffix (name filepath)"
    using tagged_stem(2)[OF counter_tag_no_dot s, of n] by (simp add: r numbered_path_def)
next
  assume ex: "filepath \<in> fs" and all: "\<forall>n. 1 \<le> n \<and> n \<le> 9999 \<longrightarrow> numbered_path filepath n \<in> fs"
  have r: "ensure_unique_filename fs now filepath = timestamp_path filepath now"
    using ex all unique_loop_exhausted[of 1 filepath fs now] by (simp add: ensure_unique_filename_def)
  show "ensure_unique_filename fs now filepath =
             Path (parent filepath)
               (path_stem (name filepath) @ ''_'' @ str_int now @ path_suffix (name filepath))"
    by (simp add: r timestamp_path_def)
  assume s: "name filepath = [] \<or> last (name filepath) \<noteq> CHR ''.''"
  show "path_stem (name (ensure_unique_filename fs now filepath)) =
                path_stem (name filepath) @ ''_'' @ str_int now"
    using tagged_stem(1)[OF stamp_tag_no_dot s, of now] by (simp add: r timestamp_path_def)
  show "path_suffix (name (ensure_unique_filename fs now filepath)) = path_suffix (name filepath)"
    using tagged_stem(2)[OF stamp_tag_no_dot s, of now] by (simp add: r timestamp_path_def)
qed

lemma intro_numbered:
  "numbered_path (Path ''out'' ''01_Intro.epub'') 1 = Path ''out'' ''01_Intro (1).epub''"
  "numbered_path (Path ''out'' ''01_Intro.epub'') 2 = Path ''out'' ''01_Intro (2).epub''"
  by (simp_all add: numbered_path_def path_stem_def path_suffix_def Let_def str_nat.simps
        digit_char_def)

lemma intro_stem_suffix:
  "path_stem ''01_Intro.epub'' = ''01_Intro''" "path_suffix ''01_Intro.epub'' = ''.epub''"
  by (simp_all add: path_stem_def path_suffix_def Let_def)

lemma stamp_digits: "str_int 1700000000 = ''1700000000''"
  by (simp add: str_int_def str_nat.simps digit_char_def)

lemma readme_numbered:
  "numbered_path (Path ''out'' ''README'') 1 = Path ''out'' ''README (1)''"
  by (simp add: numbered_path_def path_stem_def path_suffix_def Let_def str_nat.simps
        digit_char_def)

theorem ensure_unique_filename_witness:
  "ensure_unique_filename {} 0 (Path ''out'' ''01_Intro.epub'') = Path ''out'' ''01_Intro.epub'' \<and>
   ensure_unique_filename {Path ''out'' ''01_Intro.epub'', Path ''out'' ''01_Intro (1).epub''} 0
     (Path ''out'' ''01_Intro.epub'') = Path ''out'' ''01_Intro (2).epub'' \<and>
   path_stem (name (ensure_unique_filename
     {Path ''out'' ''01_Intro.epub'', Path ''out'' ''01_Intro (1).epub''} 0
     (Path ''out'' ''01_Intro.epub''))) = ''01_Intro (2)'' \<and>
   ensure_unique_filename {Path ''out'' ''README''} 0 (Path ''out'' ''README'') =
     Path ''out'' ''README (1)'' \<and>
   path_stem (name (ensure_unique_filename {Path ''out'' ''README''} 0
     (Path ''out'' ''README''))) = ''README (1)'' \<and>
   ensure_unique_filename
     (insert (Path ''out'' ''01_Intro.epub'')
        (numbered_path (Path ''out'' ''01_Intro.epub'') ` {1..9999}))
     1700000000 (Path ''out'' ''01_Intro.epub'') = Path ''out'' ''01_Intro_1700000000.epub'' \<and>
   path_stem (name (ensure_unique_filename
     (insert (Path ''out'' ''01_Intro.epub'')
        (numbered_path (Path ''out'' ''01_Intro.epub'') ` {1..9999}))
     1700000000 (Path ''out'' ''01_Intro.epub''))) = ''01_Intro_1700000000''"
proof -
  define p where "p = Path ''out'' ''01_Intro.epub''"
  define q where "q = Path ''out'' ''README''"
  define full where "full = insert p (numbered_path p ` {1..9999})"
  have nm: "name p = ''01_Intro.epub''" "parent p = ''out''" "name q = ''README''"
    "parent q = ''out''"
    by (simp_all add: p_def q_def)
  have ok: "name p = [] \<or> last (name p) \<noteq> CHR ''.''" "name q = [] \<or> last (name q) \<noteq> CHR ''.''"
    by (simp_all add: nm)
  have np: "numbered_path p 1 = Path ''out'' ''01_Intro (1).epub''"
    "numbered_path p 2 = Path ''out'' ''01_Intro (2).epub''"
    "numbered_path q 1 = Path ''out'' ''README (1)''"
    unfolding p_def q_def by (rule intro_numbered readme_numbered)+
  have digits: "str_nat 2 = ''2''" "str_nat (Suc 0) = ''1''"
    by (simp_all add: str_nat.simps digit_char_def)
  have readme: "path_stem ''README'' = ''README''" "path_suffix ''README'' = []"
    by (simp_all add: path_stem_def path_suffix_def Let_def)
  have a: "ensure_unique_filename {} 0 p = p"
    using ensure_unique_filename_correct[of p "{}" 0] by simp
  have h2: "(1::nat) \<le> 2 \<and> (2::nat) \<le> 9999 \<and>
      numbered_path p 2 \<notin> {p, Path ''out'' ''01_Intro (1).epub''} \<and>
      (\<forall>m. 1 \<le> m \<and> m < 2 \<longrightarrow> numbered_path p m \<in> {p, Path ''out'' ''01_Intro (1).epub''})"
  proof (intro conjI allI impI)
    show "numbered_path p 2 \<notin> {p, Path ''out'' ''01_Intro (1).epub''}"
      unfolding np by (simp add: p_def)
    fix m :: nat
    assume "1 \<le> m \<and> m < 2"
    then have "m = 1" by simp
    then show "numbered_path p m \<in> {p, Path ''out'' ''01_Intro (1).epub''}"
      using np(1) by simp
  qed simp_all
  have m2: "p \<in> {p, Path ''out'' ''01_Intro (1).epub''}" by simp
  from ensure_unique_filename_correct[of p "{p, Path ''out'' ''01_Intro (1).epub''}" 0] m2 h2 ok(1)
  have b: "ensure_unique_filename {p, Path ''out'' ''01_Intro (1).epub''} 0 p =
        Path (parent p) (path_stem (name p) @ '' ('' @ str_nat 2 @ '')'' @ path_suffix (name p))"
    "path_stem (name (ensure_unique_filename {p, Path ''out'' ''01_Intro (1).epub''} 0 p)) =
        path_stem (name p) @ '' ('' @ str_nat 2 @ '')''"
    by blast+
  have h1: "(1::nat) \<le> 1 \<and> (1::nat) \<le> 9999 \<and> numbered_path q 1 \<notin> {q} \<and>
      (\<forall>m. 1 \<le> m \<and> m < 1 \<longrightarrow> numbered_path q m \<in> {q})"
    unfolding np by (simp add: q_def)
  have m1: "q \<in> {q}" by simp
  from ensure_unique_filename_correct[of q "{q}" 0] m1 h1 ok(2)
  have c: "ensure_unique_filename {q} 0 q =
        Path (parent q) (path_stem (name q) @ '' ('' @ str_nat 1 @ '')'' @ path_suffix (name q))"
    "path_stem (name (ensure_unique_filename {q} 0 q)) =
        path_stem (name q) @ '' ('' @ str_nat 1 @ '')''"
    by blast+
  have hall: "\<forall>n. 1 \<le> n \<and> n \<le> 9999 \<longrightarrow> numbered_path p n \<in> full"
    by (simp add: full_def)
  have mf: "p \<in> full" by (simp add: full_def)
  from ensure_unique_filename_correct[of p full 1700000000] mf hall ok(1)
  have d: "ensure_unique_filename full 1700000000 p =
        Path (parent p) (path_stem (name p) @ ''_'' @ str_int 1700000000 @ path_suffix (name p))"
    "path_stem (name (ensure_unique_filename full 1700000000 p)) =
        path_stem (name p) @ ''_'' @ str_int 1700000000"
    by blast+
  have a': "ensure_unique_filename {} 0 p = Path ''out'' ''01_Intro.epub''"
    using a by (simp add: p_def)
  have b': "ensure_unique_filename {p, Path ''out'' ''01_Intro (1).epub''} 0 p =
        Path ''out'' ''01_Intro (2).epub''"
    "path_stem (name (ensure_unique_filename {p, Path ''out'' ''01_Intro (1).epub''} 0 p)) =
        ''01_Intro (2)''"
    using b by (simp_all add: nm intro_stem_suffix digits)
  have c': "ensure_unique_filename {q} 0 q = Path ''out'' ''README (1)''"
    "path_stem (name (ensure_unique_filename {q} 0 q)) = ''README (1)''"
    using c by (simp_all add: nm readme digits)
  have d': "ensure_unique_filename full 1700000000 p = Path ''out'' ''01_Intro_1700000000.epub''"
    "path_stem (name (ensure_unique_filename full 1700000000 p)) = ''01_Intro_1700000000''"
    using d by (simp_all add: nm intro_stem_suffix stamp_digits)
  from a' b' c' d' show ?thesis unfolding full_def p_def q_def by (intro conjI)
qed

text \<open>
  C5 as the specification states it fails on the code: for the existing path \<open>out/Mr.\<close> the
  result is \<open>out/Mr. (1)\<close>. The stem of the given name is \<open>Mr.\<close>, since a name that ends with
  a period has no suffix, but the stem of the result is \<open>Mr\<close>, not \<open>Mr. (1)\<close>.
\<close>

lemma mr_result:
  "ensure_unique_filename {Path ''out'' ''Mr.''} 0 (Path ''out'' ''Mr.'') =
     Path ''out'' ''Mr. (1)''"
  by (simp add: ensure_unique_filename_def unique_loop.simps numbered_path_def path_stem_def
        path_suffix_def Let_def str_nat.simps digit_char_def)

theorem ensure_unique_filename_stem_counterexample:
  "Path ''out'' ''Mr.'' \<in> {Path ''out'' ''Mr.''} \<and>
   ensure_unique_filename {Path ''out'' ''Mr.''} 0 (Path ''out'' ''Mr.'') =
     Path ''out'' ''Mr. (1)'' \<and>
   path_stem (name (Path ''out'' ''Mr.'')) = ''Mr.'' \<and>
   path_stem (name (ensure_unique_filename {Path ''out'' ''Mr.''} 0 (Path ''out'' ''Mr.''))) =
     ''Mr'' \<and>
   path_stem (name (ensure_unique_filename {Path ''out'' ''Mr.''} 0 (Path ''out'' ''Mr.''))) \<noteq>
     path_stem (name (Path ''out'' ''Mr.'')) @ '' (1)''"
  unfolding mr_result by (simp add: path_stem_def Let_def)

section \<open>Properties of file name sanitising\<close>

lemma sanitize_filename_steps:
  "sanitize_filename x =
     (if x = [] then ''untitled''
      else finish_name (truncate_name (guard_reserved (sanitize_core x))))"
  by (simp add: sanitize_filename_def sanitize_core_def finish_name_def Let_def)

subsection \<open>no_double closure\<close>

lemma no_double_Nil [simp]: "no_double c []"
  by (simp add: no_double_def)

lemma no_double_Cons:
  "no_double c (x # xs) \<longleftrightarrow> (xs = [] \<or> \<not> (x = c \<and> hd xs = c) \<and> no_double c xs)"
  by (simp add: no_double_def successively_Cons)

lemma no_double_append:
  "no_double c (xs @ ys) \<longleftrightarrow>
     no_double c xs \<and> no_double c ys \<and> (xs = [] \<or> ys = [] \<or> \<not> (last xs = c \<and> hd ys = c))"
  by (simp add: no_double_def successively_append_iff)

lemma no_double_rev [simp]: "no_double c (rev xs) = no_double c xs"
proof -
  have "(\<lambda>x y. \<not> (y = c \<and> x = c)) = (\<lambda>a b. \<not> (a = c \<and> b = c))"
    by (intro ext) auto
  then show ?thesis unfolding no_double_def successively_rev by (rule arg_cong)
qed

lemma no_double_dropWhile: "no_double c xs \<Longrightarrow> no_double c (dropWhile P xs)"
  by (metis no_double_append takeWhile_dropWhile_id)

lemma no_double_take: "no_double c xs \<Longrightarrow> no_double c (take n xs)"
  by (metis append_take_drop_id no_double_append)

lemma no_double_drop: "no_double c xs \<Longrightarrow> no_double c (drop n xs)"
  by (metis append_take_drop_id no_double_append)

lemma no_double_strip: "no_double c xs \<Longrightarrow> no_double c (strip_chars cs xs)"
  by (simp add: strip_chars_def no_double_dropWhile)

lemma no_double_notin: "c \<notin> set xs \<Longrightarrow> no_double c xs"
  by (induction xs) (auto simp: no_double_Cons)

subsection \<open>strip\<close>

lemma dropWhile_id: "xs = [] \<or> \<not> P (hd xs) \<Longrightarrow> dropWhile P xs = xs"
  by (cases xs) auto

lemma strip_chars_id:
  assumes "s = [] \<or> (hd s \<notin> set cs \<and> last s \<notin> set cs)"
  shows "strip_chars cs s = s"
proof (cases "s = []")
  case True
  then show ?thesis by (simp add: strip_chars_def)
next
  case False
  with assms have h: "hd s \<notin> set cs" and l: "last s \<notin> set cs" by auto
  have 1: "dropWhile (\<lambda>c. c \<in> set cs) s = s" using h False by (simp add: dropWhile_id)
  have "hd (rev s) \<notin> set cs" using l False by (simp add: hd_rev)
  then have 2: "dropWhile (\<lambda>c. c \<in> set cs) (rev s) = rev s" by (simp add: dropWhile_id)
  show ?thesis by (simp add: strip_chars_def 1 2)
qed

lemma hd_dropWhile_not: "dropWhile P xs \<noteq> [] \<Longrightarrow> \<not> P (hd (dropWhile P xs))"
  by (metis hd_dropWhile)

lemma strip_chars_ends:
  assumes "strip_chars cs s \<noteq> []"
  shows "hd (strip_chars cs s) \<notin> set cs \<and> last (strip_chars cs s) \<notin> set cs"
proof -
  define a where "a = dropWhile (\<lambda>c. c \<in> set cs) s"
  define b where "b = dropWhile (\<lambda>c. c \<in> set cs) (rev a)"
  have s: "strip_chars cs s = rev b" by (simp add: strip_chars_def a_def b_def)
  with assms have bne: "b \<noteq> []" by simp
  then have hb: "hd b \<notin> set cs" unfolding b_def using hd_dropWhile_not[of "\<lambda>c. c \<in> set cs" "rev a"] by simp
  have ane: "a \<noteq> []" using bne by (auto simp: b_def)
  then have ha: "hd a \<notin> set cs" unfolding a_def using hd_dropWhile_not[of "\<lambda>c. c \<in> set cs" s] by simp
  obtain t where t: "rev a = t @ b" unfolding b_def by (metis takeWhile_dropWhile_id)
  then have "a = rev b @ rev t" by (metis rev_append rev_rev_ident)
  then have "hd a = hd (rev b)" using bne by simp
  with ha hb bne show ?thesis by (simp add: s last_rev)
qed

lemma set_strip_chars: "set (strip_chars cs s) \<subseteq> set s"
  by (auto simp: strip_chars_def dest!: set_dropWhileD)

subsection \<open>collapse_runs\<close>

lemma collapse_runs_set:
  "c \<in> set (collapse_runs X r s) \<Longrightarrow> c = r \<or> (c \<in> set s \<and> \<not> X c)"
proof (induction X r s rule: collapse_runs.induct)
  case (1 X r)
  then show ?case by simp
next
  case (2 X r d ds)
  show ?case
  proof (cases "X d")
    case True
    with 2 show ?thesis by (auto dest: set_dropWhileD)
  next
    case False
    with 2 show ?thesis by auto
  qed
qed

lemma collapse_runs_hd:
  "s \<noteq> [] \<Longrightarrow> collapse_runs X r s \<noteq> [] \<and>
     hd (collapse_runs X r s) = (if X (hd s) then r else hd s)"
  by (cases s) auto

lemma collapse_runs_Nil_iff [simp]: "collapse_runs X r s = [] \<longleftrightarrow> s = []"
  by (cases s) auto

lemma collapse_runs_separated:
  assumes "X r"
  shows "successively (\<lambda>a b. \<not> (X a \<and> X b)) (collapse_runs X r s)"
  using assms
proof (induction X r s rule: collapse_runs.induct)
  case (1 X r)
  then show ?case by simp
next
  case (2 X r d ds)
  show ?case
  proof (cases "X d")
    case True
    have "dropWhile X ds \<noteq> [] \<Longrightarrow> \<not> X (hd (dropWhile X ds))"
      by (metis hd_dropWhile)
    then have "collapse_runs X r (dropWhile X ds) \<noteq> [] \<Longrightarrow>
        \<not> X (hd (collapse_runs X r (dropWhile X ds)))"
      using collapse_runs_hd[of "dropWhile X ds" X r] by auto
    moreover have "successively (\<lambda>a b. \<not> (X a \<and> X b)) (collapse_runs X r (dropWhile X ds))"
      using 2(1)[OF True 2(3)] .
    ultimately show ?thesis using True 2(3) by (auto simp: successively_Cons)
  next
    case False
    have "successively (\<lambda>a b. \<not> (X a \<and> X b)) (collapse_runs X r ds)"
      using 2(2)[OF False 2(3)] .
    then show ?thesis using False by (auto simp: successively_Cons)
  qed
qed

lemma collapse_runs_id:
  assumes "\<forall>c \<in> set s. X c \<longrightarrow> c = r" "successively (\<lambda>a b. \<not> (X a \<and> X b)) s"
  shows "collapse_runs X r s = s"
  using assms
proof (induction s)
  case Nil
  then show ?case by simp
next
  case (Cons d ds)
  have tl: "successively (\<lambda>a b. \<not> (X a \<and> X b)) ds"
    using Cons.prems(2) by (cases ds) simp_all
  have all: "\<forall>c \<in> set ds. X c \<longrightarrow> c = r" using Cons.prems(1) by simp
  have ih: "collapse_runs X r ds = ds" by (rule Cons.IH[OF all tl])
  show ?case
  proof (cases "X d")
    case True
    then have d: "d = r" using Cons.prems(1) by simp
    have dw: "dropWhile X ds = ds"
    proof (cases ds)
      case Nil
      then show ?thesis by simp
    next
      case (Cons e es)
      with Cons.prems(2) True have "\<not> X e" by simp
      with Cons show ?thesis by simp
    qed
    have "collapse_runs X r (d # ds) = r # collapse_runs X r (dropWhile X ds)"
      using True by simp
    also have "\<dots> = d # ds" by (simp only: dw ih d)
    finally show ?thesis .
  next
    case False
    then have "collapse_runs X r (d # ds) = d # collapse_runs X r ds" by simp
    then show ?thesis by (simp only: ih)
  qed
qed

lemma successively_dropWhile: "successively Q xs \<Longrightarrow> successively Q (dropWhile P xs)"
  by (metis successively_append_iff takeWhile_dropWhile_id)

lemma collapse_runs_successively:
  assumes "\<And>y. Q r y" "\<And>x. Q x r" "successively Q s"
  shows "successively Q (collapse_runs X r s)"
  using assms
proof (induction X r s rule: collapse_runs.induct)
  case (1 X r)
  then show ?case by simp
next
  case (2 X r d ds)
  have tl: "successively Q ds" using 2(5) by (auto simp: successively_Cons)
  show ?case
  proof (cases "X d")
    case True
    have "successively Q (collapse_runs X r (dropWhile X ds))"
      using 2(1)[OF True 2(3) 2(4)] tl by (simp add: successively_dropWhile)
    with True 2(3) show ?thesis by (simp add: successively_Cons)
  next
    case False
    have ih: "successively Q (collapse_runs X r ds)"
      using 2(2)[OF False 2(3) 2(4)] tl by simp
    have "Q d (hd (collapse_runs X r ds))" if "ds \<noteq> []"
      using collapse_runs_hd[OF that, of X r] 2(4) 2(5) that
      by (auto simp: successively_Cons)
    with False ih show ?thesis by (auto simp: successively_Cons)
  qed
qed

lemma is_space_space: "is_space CHR '' ''"
  by (simp add: is_space_def)

lemma underscore_plain: "\<not> is_space CHR ''_''" "CHR ''_'' \<notin> INVALID_FILENAME_CHARS"
  by (simp_all add: is_space_def INVALID_FILENAME_CHARS_def)

lemma space_valid: "CHR '' '' \<notin> INVALID_FILENAME_CHARS"
  by (simp add: INVALID_FILENAME_CHARS_def)

lemma spaces_plain_collapse: "spaces_plain (collapse_spaces s)"
  unfolding spaces_plain_def collapse_spaces_def
  using collapse_runs_set[of _ is_space "CHR '' ''" s] by blast

lemma no_double_collapse_spaces: "no_double CHR '' '' (collapse_spaces s)"
proof -
  have "successively (\<lambda>a b. \<not> (is_space a \<and> is_space b)) (collapse_spaces s)"
    unfolding collapse_spaces_def by (rule collapse_runs_separated) (rule is_space_space)
  then show ?thesis
    unfolding no_double_def
    by (rule successively_mono) (auto simp: is_space_space)
qed

lemma spaces_plain_strip: "spaces_plain s \<Longrightarrow> spaces_plain (strip_chars cs s)"
  unfolding spaces_plain_def using set_strip_chars[of cs s] by blast

lemma plain_replace_invalid: "spaces_plain s \<Longrightarrow> plain_chars (replace_invalid s)"
  unfolding spaces_plain_def plain_chars_def replace_invalid_def
  by (auto simp: underscore_plain)

lemma no_double_space_replace_invalid:
  assumes "no_double CHR '' '' s"
  shows "no_double CHR '' '' (replace_invalid s)"
proof -
  have "successively (\<lambda>a b. \<not> ((if a \<in> INVALID_FILENAME_CHARS then CHR ''_'' else a) = CHR '' '' \<and>
          (if b \<in> INVALID_FILENAME_CHARS then CHR ''_'' else b) = CHR '' '')) s"
    using assms unfolding no_double_def by (rule successively_mono) (auto split: if_splits)
  then show ?thesis
    unfolding no_double_def replace_invalid_def successively_map .
qed

lemma plain_collapse_replacement: "plain_chars s \<Longrightarrow> plain_chars (collapse_replacement s)"
  unfolding plain_chars_def collapse_replacement_def
  using collapse_runs_set[of _ "\<lambda>c. c = CHR ''_''" "CHR ''_''" s] underscore_plain by blast

lemma no_double_us_collapse: "no_double CHR ''_'' (collapse_replacement s)"
proof -
  have "successively (\<lambda>a b. \<not> (a = CHR ''_'' \<and> b = CHR ''_'')) (collapse_replacement s)"
    unfolding collapse_replacement_def
    by (rule collapse_runs_separated[where X = "\<lambda>c. c = CHR ''_''"]) simp
  then show ?thesis by (simp add: no_double_def)
qed

lemma no_double_space_collapse:
  "no_double CHR '' '' s \<Longrightarrow> no_double CHR '' '' (collapse_replacement s)"
  unfolding no_double_def collapse_replacement_def
  by (rule collapse_runs_successively) simp_all

lemma plain_strip: "plain_chars s \<Longrightarrow> plain_chars (strip_chars cs s)"
  unfolding plain_chars_def using set_strip_chars[of cs s] by blast

lemma inner_core: "inner (sanitize_core x)"
proof -
  define s2 where "s2 = collapse_spaces (replace_control x)"
  define s3 where "s3 = strip_chars '' .'' s2"
  define s4 where "s4 = replace_invalid s3"
  define s5 where "s5 = collapse_replacement s4"
  have c: "sanitize_core x = strip_chars ''_ '' s5"
    by (simp add: sanitize_core_def s2_def s3_def s4_def s5_def)
  have "spaces_plain s3" "no_double CHR '' '' s3"
    unfolding s3_def s2_def
    by (simp_all add: spaces_plain_strip spaces_plain_collapse no_double_strip no_double_collapse_spaces)
  then have "plain_chars s4" "no_double CHR '' '' s4"
    unfolding s4_def by (simp_all add: plain_replace_invalid no_double_space_replace_invalid)
  then have "plain_chars s5" "no_double CHR '' '' s5" "no_double CHR ''_'' s5"
    unfolding s5_def
    by (simp_all add: plain_collapse_replacement no_double_space_collapse no_double_us_collapse)
  then show ?thesis
    unfolding c inner_def by (simp add: plain_strip no_double_strip)
qed

lemma core_ends:
  "sanitize_core x \<noteq> [] \<Longrightarrow>
     hd (sanitize_core x) \<notin> {CHR ''_'', CHR '' ''} \<and> last (sanitize_core x) \<notin> {CHR ''_'', CHR '' ''}"
  unfolding sanitize_core_def using strip_chars_ends[of "''_ ''"] by simp

text \<open>The first steps leave an inner string with proper ends as it is.\<close>

lemma core_id:
  assumes "inner s"
    and "s = [] \<or> (hd s \<notin> {CHR '' '', CHR ''.'', CHR ''_''} \<and> last s \<notin> {CHR '' '', CHR ''.'', CHR ''_''})"
  shows "sanitize_core s = s"
proof -
  have pl: "plain_chars s" and nd: "no_double CHR '' '' s" and nu: "no_double CHR ''_'' s"
    using assms(1) by (simp_all add: inner_def)
  have 1: "replace_control s = s"
    unfolding replace_control_def
  proof (rule map_idI)
    fix c assume "c \<in> set s"
    with pl have "is_space c \<longrightarrow> c = CHR '' ''" by (simp add: plain_chars_def)
    then show "(if c \<in> {CHR 0x0A, CHR 0x0D, CHR 0x09, CHR 0x0C, CHR 0x0B} then CHR '' '' else c) = c"
      by (auto simp: is_space_def)
  qed
  have sep: "successively (\<lambda>a b. \<not> (is_space a \<and> is_space b)) s"
    using nd unfolding no_double_def
  proof (rule successively_mono)
    fix a b assume "a \<in> set s" "b \<in> set s" "\<not> (a = CHR '' '' \<and> b = CHR '' '')"
    with pl show "\<not> (is_space a \<and> is_space b)" by (auto simp: plain_chars_def)
  qed
  have 2: "collapse_spaces s = s"
    unfolding collapse_spaces_def
    by (rule collapse_runs_id) (use pl sep in \<open>auto simp: plain_chars_def\<close>)
  have 3: "strip_chars '' .'' s = s"
    by (rule strip_chars_id) (use assms(2) in auto)
  have 4: "replace_invalid s = s"
    unfolding replace_invalid_def
    by (rule map_idI) (use pl in \<open>auto simp: plain_chars_def\<close>)
  have 5: "collapse_replacement s = s"
    unfolding collapse_replacement_def
    by (rule collapse_runs_id) (use nu in \<open>auto simp: no_double_def\<close>)
  have 6: "strip_chars ''_ '' s = s"
    by (rule strip_chars_id) (use assms(2) in auto)
  show ?thesis by (simp only: sanitize_core_def 1 2 3 4 5 6)
qed

subsection \<open>Path names without slashes\<close>

lemma split_on_notin: "c \<notin> set s \<Longrightarrow> split_on c s = [s]"
  by (induction s) auto

lemma path_name_plain:
  "CHR ''/'' \<notin> set s \<Longrightarrow> path_name s = (if s = ''.'' then [] else s)"
  by (simp add: path_name_def split_on_notin)

lemma inner_no_slash: "inner s \<Longrightarrow> CHR ''/'' \<notin> set s"
  by (auto simp: inner_def plain_chars_def INVALID_FILENAME_CHARS_def)

lemma path_name_inner: "inner s \<Longrightarrow> s \<noteq> ''.'' \<Longrightarrow> path_name s = s"
  by (simp add: path_name_plain inner_no_slash)

subsection \<open>Reserved names\<close>

lemma to_upper_dot: "to_upper CHR ''.'' = CHR ''.''"
  by (simp add: to_upper_def)

lemma reserved_shape:
  assumes "n \<in> set RESERVED_NAMES"
  shows "length n \<le> 4 \<and> n \<noteq> [] \<and> CHR ''.'' \<notin> set n"
  using assms by (auto simp: RESERVED_NAMES_def)

lemma reserved_stem:
  assumes "map to_upper t \<in> set RESERVED_NAMES"
  shows "length t \<le> 4" "t \<noteq> []" "CHR ''.'' \<notin> set t"
proof -
  from reserved_shape[OF assms] show "length t \<le> 4" "t \<noteq> []" by auto
  show "CHR ''.'' \<notin> set t"
  proof
    assume "CHR ''.'' \<in> set t"
    then have "to_upper CHR ''.'' \<in> set (map to_upper t)" by (simp del: to_upper_dot)
    with reserved_shape[OF assms] show False by (simp add: to_upper_dot)
  qed
qed

lemma not_reserved_dot: "CHR ''.'' \<in> set t \<Longrightarrow> map to_upper t \<notin> set RESERVED_NAMES"
  using reserved_stem(3) by blast

lemma not_reserved_long: "4 < length t \<Longrightarrow> map to_upper t \<notin> set RESERVED_NAMES"
  using reserved_stem(1) by fastforce

subsection \<open>Closure of inner\<close>

lemma plain_chars_append [simp]: "plain_chars (a @ b) \<longleftrightarrow> plain_chars a \<and> plain_chars b"
  by (auto simp: plain_chars_def)

lemma inner_appendD: "inner (a @ b) \<Longrightarrow> inner a \<and> inner b"
  by (auto simp: inner_def no_double_append)

lemma inner_Cons_us:
  assumes "inner f" "f = [] \<or> hd f \<noteq> CHR ''_''"
  shows "inner (CHR ''_'' # f)"
  using assms
  by (auto simp: inner_def no_double_Cons plain_chars_def underscore_plain)

lemma inner_dots: "inner ''...''"
  by (simp add: inner_def plain_chars_def no_double_def is_space_def INVALID_FILENAME_CHARS_def)

lemma inner_truncated: "inner ''truncated''"
  by (simp add: inner_def plain_chars_def no_double_def is_space_def INVALID_FILENAME_CHARS_def)

lemma inner_append_dot:
  assumes "inner a" "inner b" "a = [] \<or> last a = CHR ''.'' \<or> b = [] \<or> hd b = CHR ''.''"
  shows "inner (a @ b)"
  using assms by (auto simp: inner_def no_double_append)

lemma inner_append_t:
  assumes "inner b" "b = [] \<or> hd b = CHR ''.''"
  shows "inner (''truncated'' @ b)"
proof -
  have "inner (''truncated'' @ b)"
    using inner_truncated assms(1)
    unfolding inner_def no_double_append plain_chars_append
    using assms(2) by auto
  then show ?thesis .
qed

lemma core_pre:
  assumes "inner s"
    and "s = [] \<or> (hd s \<notin> {CHR '' '', CHR ''.''} \<and> last s \<notin> {CHR '' '', CHR ''.''})"
  shows "sanitize_core s = strip_chars ''_ '' s"
proof -
  have pl: "plain_chars s" and nd: "no_double CHR '' '' s" and nu: "no_double CHR ''_'' s"
    using assms(1) by (simp_all add: inner_def)
  have 1: "replace_control s = s"
    unfolding replace_control_def
  proof (rule map_idI)
    fix c assume "c \<in> set s"
    with pl have "is_space c \<longrightarrow> c = CHR '' ''" by (simp add: plain_chars_def)
    then show "(if c \<in> {CHR 0x0A, CHR 0x0D, CHR 0x09, CHR 0x0C, CHR 0x0B} then CHR '' '' else c) = c"
      by (auto simp: is_space_def)
  qed
  have sep: "successively (\<lambda>a b. \<not> (is_space a \<and> is_space b)) s"
    using nd unfolding no_double_def
  proof (rule successively_mono)
    fix a b assume "a \<in> set s" "b \<in> set s" "\<not> (a = CHR '' '' \<and> b = CHR '' '')"
    with pl show "\<not> (is_space a \<and> is_space b)" by (auto simp: plain_chars_def)
  qed
  have 2: "collapse_spaces s = s"
    unfolding collapse_spaces_def
    by (rule collapse_runs_id) (use pl sep in \<open>auto simp: plain_chars_def\<close>)
  have 3: "strip_chars '' .'' s = s"
    by (rule strip_chars_id) (use assms(2) in auto)
  have 4: "replace_invalid s = s"
    unfolding replace_invalid_def
    by (rule map_idI) (use pl in \<open>auto simp: plain_chars_def\<close>)
  have 5: "collapse_replacement s = s"
    unfolding collapse_replacement_def
    by (rule collapse_runs_id) (use nu in \<open>auto simp: no_double_def\<close>)
  show ?thesis by (simp only: sanitize_core_def 1 2 3 4 5)
qed

lemma finish_id: "s \<noteq> [] \<Longrightarrow> hd s \<noteq> CHR ''_'' \<Longrightarrow> finish_name s = s"
  by (auto simp: finish_name_def)

lemma fixed_plain:
  assumes "inner f" "f \<noteq> []"
    and "hd f \<notin> {CHR '' '', CHR ''.'', CHR ''_''}" "last f \<notin> {CHR '' '', CHR ''.'', CHR ''_''}"
    and "map to_upper (path_stem (path_name f)) \<notin> set RESERVED_NAMES"
    and "length f \<le> 255"
  shows "sanitize_filename f = f"
proof -
  have c: "sanitize_core f = f" by (rule core_id) (use assms in auto)
  have g: "guard_reserved f = f" using assms(5) by (simp add: guard_reserved_def)
  have t: "truncate_name f = f" using assms(6) by (simp add: truncate_name_def)
  have fin: "finish_name f = f" by (rule finish_id) (use assms in auto)
  show ?thesis using assms(2) by (simp only: sanitize_filename_steps c g t fin if_False)
qed

lemma strip_leading_us:
  assumes "f \<noteq> []" "hd f \<notin> {CHR ''_'', CHR '' ''}" "last f \<notin> {CHR ''_'', CHR '' ''}"
  shows "strip_chars ''_ '' (CHR ''_'' # f) = f"
proof -
  have "dropWhile (\<lambda>c. c \<in> set ''_ '') (CHR ''_'' # f) = dropWhile (\<lambda>c. c \<in> set ''_ '') f"
    by simp
  also have "\<dots> = f" by (rule dropWhile_id) (use assms in auto)
  finally have 1: "dropWhile (\<lambda>c. c \<in> set ''_ '') (CHR ''_'' # f) = f" .
  have "hd (rev f) \<notin> set ''_ ''" using assms by (simp add: hd_rev)
  then have 2: "dropWhile (\<lambda>c. c \<in> set ''_ '') (rev f) = rev f" by (simp add: dropWhile_id)
  show ?thesis unfolding strip_chars_def 1 2 by simp
qed

lemma fixed_reserved:
  assumes "inner f" "f \<noteq> []"
    and "hd f \<notin> {CHR '' '', CHR ''_''}" "last f \<notin> {CHR '' '', CHR ''.'', CHR ''_''}"
    and "map to_upper (path_stem (path_name f)) \<in> set RESERVED_NAMES"
    and "length f < 255"
  shows "sanitize_filename (CHR ''_'' # f) = CHR ''_'' # f"
proof -
  have i: "inner (CHR ''_'' # f)" by (rule inner_Cons_us) (use assms in auto)
  have "sanitize_core (CHR ''_'' # f) = strip_chars ''_ '' (CHR ''_'' # f)"
    by (rule core_pre[OF i]) (use assms in auto)
  also have "\<dots> = f" by (rule strip_leading_us) (use assms in auto)
  finally have c: "sanitize_core (CHR ''_'' # f) = f" .
  have g: "guard_reserved f = CHR ''_'' # f" using assms(5) by (simp add: guard_reserved_def)
  have t: "truncate_name (CHR ''_'' # f) = CHR ''_'' # f"
    using assms(6) by (simp add: truncate_name_def)
  have fin: "finish_name (CHR ''_'' # f) = CHR ''_'' # f"
    using assms(2) by (simp add: finish_name_def)
  have ne: "CHR ''_'' # f \<noteq> []" by simp
  show ?thesis using ne by (simp only: sanitize_filename_steps c g t fin if_False)
qed

lemma fixed_ellipsis:
  assumes "inner a" "a \<noteq> []" "hd a \<notin> {CHR '' '', CHR ''.'', CHR ''_''}"
    and "inner (CHR ''.'' # rest)" "rest \<noteq> []" "CHR ''.'' \<notin> set rest"
    and "last rest \<notin> {CHR '' '', CHR ''_''}"
    and "length (a @ ''...'' @ CHR ''.'' # rest) \<le> 255"
  shows "sanitize_filename (a @ ''...'' @ CHR ''.'' # rest) = a @ ''...'' @ CHR ''.'' # rest"
proof -
  define r where "r = a @ ''...'' @ CHR ''.'' # rest"
  have i1: "inner (''...'' @ CHR ''.'' # rest)"
    by (rule inner_append_dot[OF inner_dots assms(4)]) simp
  have i: "inner r" unfolding r_def
    by (rule inner_append_dot[OF assms(1) i1]) simp
  have ne: "r \<noteq> []" by (simp add: r_def)
  have hd: "hd r = hd a" using assms(2) by (simp add: r_def)
  have lst: "last r = last rest" using assms(5) by (simp add: r_def)
  have ld: "last rest \<noteq> CHR ''.''" using assms(5,6) last_in_set by metis
  have c: "sanitize_core r = r"
    by (rule core_id[OF i]) (use hd lst ld assms(3,7) in auto)
  have rd: "r \<noteq> ''.''" using assms(2) by (auto simp: r_def)
  have pn: "path_name r = r" by (rule path_name_inner[OF i rd])
  have r2: "r = (a @ ''...'') @ CHR ''.'' # rest" by (simp add: r_def)
  have ane: "a @ ''...'' \<noteq> []" by simp
  have st: "path_stem r = a @ ''...''"
    unfolding r2 by (rule stem_suffix_of_append(1)[OF ane assms(5,6)])
  have nr: "map to_upper (path_stem (path_name r)) \<notin> set RESERVED_NAMES"
    unfolding pn st by (rule not_reserved_dot) simp
  have g: "guard_reserved r = r" using nr by (simp add: guard_reserved_def)
  have t: "truncate_name r = r" using assms(8) by (simp add: truncate_name_def r_def)
  have fin: "finish_name r = r" by (rule finish_id[OF ne]) (use hd assms(3) in auto)
  have "sanitize_filename r = r"
    using ne by (simp only: sanitize_filename_steps c g t fin if_False)
  then show ?thesis by (simp only: r_def)
qed

lemma fixed_truncated:
  assumes "inner (CHR ''.'' # rest)" "rest \<noteq> []" "CHR ''.'' \<notin> set rest"
    and "last rest \<notin> {CHR '' '', CHR ''_''}"
    and "245 \<le> length (CHR ''.'' # rest)"
  shows "sanitize_filename (''truncated'' @ CHR ''.'' # rest) = ''truncated'' @ CHR ''.'' # rest"
proof -
  define r where "r = ''truncated'' @ CHR ''.'' # rest"
  have i: "inner r" unfolding r_def by (rule inner_append_t[OF assms(1)]) simp
  have ne: "r \<noteq> []" by (simp add: r_def)
  have hd: "hd r = CHR ''t''" by (simp add: r_def)
  have lst: "last r = last rest" using assms(2) by (simp add: r_def)
  have ld: "last rest \<noteq> CHR ''.''" using assms(2,3) last_in_set by metis
  have c: "sanitize_core r = r"
    by (rule core_id[OF i]) (use hd lst ld assms(4) in auto)
  have rd: "r \<noteq> ''.''" by (simp add: r_def)
  have pn: "path_name r = r" by (rule path_name_inner[OF i rd])
  have tne: "''truncated'' \<noteq> []" by simp
  have st: "path_stem r = ''truncated''" unfolding r_def
    by (rule stem_suffix_of_append(1)[OF tne assms(2,3)])
  have su: "path_suffix r = CHR ''.'' # rest" unfolding r_def
    by (rule stem_suffix_of_append(2)[OF tne assms(2,3)])
  have nr: "map to_upper (path_stem (path_name r)) \<notin> set RESERVED_NAMES"
    unfolding pn st by (rule not_reserved_long) simp
  have g: "guard_reserved r = r" using nr by (simp add: guard_reserved_def)
  have k: "\<not> 0 < 255 - int (length (CHR ''.'' # rest)) - 10" using assms(5) by simp
  have t: "truncate_name r = r"
  proof (cases "length r > 255")
    case True
    then have "truncate_name r = ''truncated'' @ CHR ''.'' # rest"
      unfolding truncate_name_def pn st su Let_def using k by simp
    then show ?thesis by (simp only: r_def)
  next
    case False
    then show ?thesis by (simp add: truncate_name_def)
  qed
  have fin: "finish_name r = r" by (rule finish_id[OF ne]) (simp add: hd)
  have "sanitize_filename r = r"
    using ne by (simp only: sanitize_filename_steps c g t fin if_False)
  then show ?thesis by (simp only: r_def)
qed

lemma untitled_fixed: "sanitize_filename ''untitled'' = ''untitled''"
  by code_simp

lemma stem_neq_suffix: "path_stem s \<noteq> s \<Longrightarrow> path_suffix s \<noteq> []"
  by (auto simp: path_stem_def path_suffix_def Let_def split: if_splits)

lemma suffix_Nil_stem: "path_suffix s = [] \<Longrightarrow> path_stem s = s"
  using stem_neq_suffix by blast

lemma inner_take: "inner s \<Longrightarrow> inner (take n s)"
  using inner_appendD[of "take n s" "drop n s"] by simp

lemma idempotent_nonempty:
  assumes x: "x \<noteq> []"
    and hdr: "hd (sanitize_filename x) \<noteq> CHR ''.''"
    and lastr: "last (sanitize_filename x) \<noteq> CHR ''.''"
  shows "sanitize_filename (sanitize_filename x) = sanitize_filename x"
proof -
  define f where "f = sanitize_core x"
  define g where "g = guard_reserved f"
  define h where "h = truncate_name g"
  have r: "sanitize_filename x = finish_name h"
    using x by (simp add: sanitize_filename_steps f_def g_def h_def)
  have inf: "inner f" unfolding f_def by (rule inner_core)
  have ends: "f \<noteq> [] \<Longrightarrow> hd f \<notin> {CHR ''_'', CHR '' ''} \<and> last f \<notin> {CHR ''_'', CHR '' ''}"
    unfolding f_def by (rule core_ends)
  have empty_not_reserved: "map to_upper (path_stem (path_name [])) \<notin> set RESERVED_NAMES"
    using reserved_stem(2)[of "path_stem (path_name [])"]
    by (auto simp: path_name_def path_stem_def)
  show ?thesis
  proof (cases "length g \<le> 255")
    case True
    then have hg: "h = g" by (simp add: h_def truncate_name_def)
    show ?thesis
    proof (cases "map to_upper (path_stem (path_name f)) \<in> set RESERVED_NAMES")
      case res: True
      then have fne: "f \<noteq> []" using empty_not_reserved by auto
      have gf: "g = CHR ''_'' # f" using res by (simp add: g_def guard_reserved_def)
      have rr: "sanitize_filename x = CHR ''_'' # f"
        using fne by (simp add: r hg gf finish_name_def)
      have lf: "last f \<noteq> CHR ''.''" using lastr fne by (simp add: rr)
      have "sanitize_filename (CHR ''_'' # f) = CHR ''_'' # f"
        by (rule fixed_reserved[OF inf fne _ _ res])
           (use ends[OF fne] lf True gf in auto)
      then show ?thesis by (simp only: rr)
    next
      case nres: False
      then have gf: "g = f" by (simp add: g_def guard_reserved_def)
      show ?thesis
      proof (cases "f = []")
        case True
        then have "sanitize_filename x = ''untitled''" by (simp add: r hg gf finish_name_def)
        then show ?thesis by (simp only: untitled_fixed)
      next
        case fne: False
        have "finish_name f = f" by (rule finish_id[OF fne]) (use ends[OF fne] in auto)
        then have rr: "sanitize_filename x = f" by (simp add: r hg gf)
        have "sanitize_filename f = f"
          by (rule fixed_plain[OF inf fne _ _ nres])
             (use ends[OF fne] hdr lastr rr True gf in auto)
        then show ?thesis by (simp only: rr)
      qed
    qed
  next
    case long: False
    have fne: "f \<noteq> []" using long by (auto simp: g_def guard_reserved_def split: if_splits)
    have flen: "255 \<le> length f" using long by (auto simp: g_def guard_reserved_def split: if_splits)
    have gcases: "g = f \<or> g = CHR ''_'' # f" by (simp add: g_def guard_reserved_def)
    have ing: "inner g"
      using gcases inf inner_Cons_us[OF inf] ends[OF fne] by auto
    have gd: "g \<noteq> ''.''" using long by auto
    have png: "path_name g = g" by (rule path_name_inner[OF ing gd])
    have lastg: "last g = last f" using gcases fne by auto
    define ext where "ext = path_suffix g"
    define nm where "nm = path_stem g"
    define k where "k = 255 - int (length ext) - 10"
    have hdef: "h = (if 0 < k then take (nat k) nm @ ''...'' @ ext else ''truncated'' @ ext)"
      using long unfolding h_def truncate_name_def png Let_def ext_def nm_def k_def by simp
    have hne: "h \<noteq> []" "h \<noteq> ''_''" by (auto simp: hdef)
    have rr: "sanitize_filename x = h" using hne by (simp add: r finish_name_def)
    have extne: "ext \<noteq> []"
    proof
      assume e: "ext = []"
      then have "h = take 245 nm @ ''...''" by (simp add: hdef k_def)
      then have "last h = CHR ''.''" by simp
      with lastr rr show False by simp
    qed
    from stem_suffix_split[of g] extne obtain rest where
      rest: "ext = CHR ''.'' # rest" "rest \<noteq> []" "CHR ''.'' \<notin> set rest"
        "g = nm @ ext" "nm \<noteq> []"
      unfolding ext_def nm_def by blast
    have inn: "inner nm" "inner ext" using inner_appendD[of nm ext] ing rest(4) by simp_all
    have inext: "inner (CHR ''.'' # rest)" using inn(2) by (simp only: rest(1))
    have lrest: "last rest \<notin> {CHR '' '', CHR ''_''}"
    proof -
      have "last g = last rest" using rest(1,2,4) by simp
      with lastg ends[OF fne] show ?thesis by auto
    qed
    show ?thesis
    proof (cases "0 < k")
      case kpos: True
      have h1: "h = take (nat k) nm @ ''...'' @ CHR ''.'' # rest"
        using kpos by (simp add: hdef rest(1))
      have gf: "g = f"
      proof (rule ccontr)
        assume "g \<noteq> f"
        then have gu: "g = CHR ''_'' # f"
          and res: "map to_upper (path_stem (path_name f)) \<in> set RESERVED_NAMES"
          by (auto simp: g_def guard_reserved_def split: if_splits)
        have fd: "f \<noteq> ''.''" using flen by auto
        have pnf: "path_name f = f" by (rule path_name_inner[OF inf fd])
        define t where "t = path_stem f"
        have t4: "length t \<le> 4" "t \<noteq> []"
          using reserved_stem(1,2)[of t] res by (simp_all add: t_def pnf)
        have "t \<noteq> f" using t4(1) flen by auto
        then have "path_suffix f \<noteq> []" unfolding t_def by (rule stem_neq_suffix)
        from stem_suffix_split[OF this] obtain rest' where
          r': "path_suffix f = CHR ''.'' # rest'" "rest' \<noteq> []" "CHR ''.'' \<notin> set rest'"
            "f = t @ path_suffix f"
          unfolding t_def by blast
        have g2: "g = (CHR ''_'' # t) @ CHR ''.'' # rest'"
          using gu r'(4) r'(1) by simp
        have une: "CHR ''_'' # t \<noteq> []" by simp
        have "path_suffix g = CHR ''.'' # rest'"
          unfolding g2 by (rule stem_suffix_of_append(2)[OF une r'(2,3)])
        then have el: "length ext = length (path_suffix f)" by (simp add: ext_def r'(1))
        have "length f = length t + length (path_suffix f)" using r'(4) by (metis length_append)
        with flen t4(1) have "251 \<le> length (path_suffix f)" by linarith
        with el kpos show False by (simp add: k_def)
      qed
      define a where "a = take (nat k) nm"
      have ane: "a \<noteq> []" using kpos rest(5) by (simp add: a_def)
      have hda: "hd a = hd nm" using kpos by (simp add: a_def)
      have hdnm: "hd nm = hd f" using gf rest(4,5) by (metis hd_append2)
      have hdh: "hd h = hd a" using ane by (simp add: h1 a_def)
      have a3: "hd a \<notin> {CHR '' '', CHR ''.'', CHR ''_''}"
        using ends[OF fne] hdr rr hdh hda hdnm by auto
      have ina: "inner a" unfolding a_def by (rule inner_take[OF inn(1)])
      have la: "length a \<le> nat k" by (simp add: a_def)
      have len: "length (a @ ''...'' @ CHR ''.'' # rest) \<le> 255"
        using la kpos by (simp add: k_def rest(1))
      have "sanitize_filename (a @ ''...'' @ CHR ''.'' # rest) = a @ ''...'' @ CHR ''.'' # rest"
        by (rule fixed_ellipsis[OF ina ane a3 inext rest(2,3) lrest len])
      then show ?thesis by (simp only: rr h1 a_def)
    next
      case kneg: False
      have h2: "h = ''truncated'' @ CHR ''.'' # rest" using kneg by (simp add: hdef rest(1))
      have l245: "245 \<le> length (CHR ''.'' # rest)" using kneg by (simp add: k_def rest(1))
      have "sanitize_filename (''truncated'' @ CHR ''.'' # rest) = ''truncated'' @ CHR ''.'' # rest"
        by (rule fixed_truncated[OF inext rest(2,3) lrest l245])
      then show ?thesis by (simp only: rr h2)
    qed
  qed
qed

subsection \<open>ASCII text\<close>

lemma ascii_text_iff: "ascii_text s = (\<forall>c \<in> set s. (of_char c :: nat) < 128)"
  by (simp add: ascii_text_def list_all_iff)

lemma ascii_append: "ascii_text (a @ b) = (ascii_text a \<and> ascii_text b)"
  by (simp add: ascii_text_def)

lemma ascii_subset: "ascii_text s \<Longrightarrow> set t \<subseteq> set s \<Longrightarrow> ascii_text t"
  by (auto simp: ascii_text_iff)

lemma ascii_strip_chars: "ascii_text s \<Longrightarrow> ascii_text (strip_chars chars s)"
proof (rule ascii_subset)
  show "set (strip_chars chars s) \<subseteq> set s"
    unfolding strip_chars_def by (auto dest!: set_dropWhileD)
qed

lemma ascii_collapse_runs:
  "(of_char r :: nat) < 128 \<Longrightarrow> ascii_text s \<Longrightarrow> ascii_text (collapse_runs X r s)"
proof (induction X r s rule: collapse_runs.induct)
  case (1 X r)
  then show ?case by simp
next
  case (2 X r c cs)
  have d: "ascii_text (dropWhile X cs)"
    using "2.prems"(2) by (auto simp: ascii_text_iff dest: set_dropWhileD)
  have t: "ascii_text cs" using "2.prems"(2) by (simp add: ascii_text_def)
  have c: "(of_char c :: nat) < 128" using "2.prems"(2) by (simp add: ascii_text_def)
  show ?case
  proof (cases "X c")
    case True
    with "2.IH"(1)[OF True "2.prems"(1) d] "2.prems"(1) show ?thesis
      by (simp add: ascii_text_def)
  next
    case False
    with "2.IH"(2)[OF False "2.prems"(1) t] c show ?thesis
      by (simp add: ascii_text_def)
  qed
qed

lemma ascii_replace_control: "ascii_text s \<Longrightarrow> ascii_text (replace_control s)"
  by (auto simp: ascii_text_iff replace_control_def)

lemma ascii_replace_invalid: "ascii_text s \<Longrightarrow> ascii_text (replace_invalid s)"
  by (auto simp: ascii_text_iff replace_invalid_def)

lemma split_on_subset: "p \<in> set (split_on c s) \<Longrightarrow> set p \<subseteq> set s"
proof (induction s arbitrary: p)
  case Nil
  then show ?case by simp
next
  case (Cons x xs)
  show ?case
  proof (cases "x = c")
    case True
    with Cons show ?thesis by auto
  next
    case False
    show ?thesis
    proof (cases "split_on c xs")
      case Nil
      with Cons.prems False show ?thesis by simp
    next
      case (Cons q qs)
      with Cons.prems False have "p = x # q \<or> p \<in> set qs" by simp
      then show ?thesis
      proof
        assume "p = x # q"
        moreover have "set q \<subseteq> set xs" using Cons.IH[of q] Cons by simp
        ultimately show ?thesis by auto
      next
        assume "p \<in> set qs"
        then have "set p \<subseteq> set xs" using Cons.IH[of p] Cons by simp
        then show ?thesis by auto
      qed
    qed
  qed
qed

lemma path_name_subset: "set (path_name s) \<subseteq> set s"
proof (cases "rev (filter (\<lambda>p. p \<noteq> [] \<and> p \<noteq> ''.'') (split_on CHR ''/'' s))")
  case Nil
  then show ?thesis by (simp add: path_name_def)
next
  case (Cons p ps)
  then have "p \<in> set (rev (filter (\<lambda>p. p \<noteq> [] \<and> p \<noteq> ''.'') (split_on CHR ''/'' s)))"
    by simp
  then have "p \<in> set (split_on CHR ''/'' s)" by simp
  from split_on_subset[OF this] Cons show ?thesis by (simp add: path_name_def)
qed

lemma path_stem_subset: "set (path_stem nm) \<subseteq> set nm"
  by (auto simp: path_stem_def Let_def dest: in_set_takeD)

lemma path_suffix_subset: "set (path_suffix nm) \<subseteq> set nm"
  by (auto simp: path_suffix_def Let_def dest: in_set_dropD)

lemma ascii_guard_reserved: "ascii_text s \<Longrightarrow> ascii_text (guard_reserved s)"
  by (simp add: guard_reserved_def ascii_text_def)

lemma ascii_truncate_name:
  assumes "ascii_text s"
  shows "ascii_text (truncate_name s)"
proof -
  have n: "ascii_text (path_name s)" using assms path_name_subset by (rule ascii_subset)
  have st: "ascii_text (path_stem (path_name s))" using n path_stem_subset by (rule ascii_subset)
  have ext: "ascii_text (path_suffix (path_name s))"
    using n path_suffix_subset by (rule ascii_subset)
  have tk: "ascii_text (take k (path_stem (path_name s)))" for k
    using st by (rule ascii_subset) (auto dest: in_set_takeD)
  have dots: "ascii_text ''...''" "ascii_text ''truncated''" by (simp_all add: ascii_text_def)
  show ?thesis
    using assms tk ext dots
    by (simp add: truncate_name_def Let_def ascii_append del: append.simps)
qed

lemma sanitize_filename_ascii:
  assumes "ascii_text x"
  shows "ascii_text (sanitize_filename x)"
proof -
  have u: "ascii_text ''untitled''" by (simp add: ascii_text_def)
  have sp: "(of_char CHR '' '' :: nat) < 128" "(of_char CHR ''_'' :: nat) < 128" by simp_all
  have "ascii_text (truncate_name (guard_reserved (strip_chars ''_ ''
          (collapse_replacement (replace_invalid (strip_chars '' .''
            (collapse_spaces (replace_control x))))))))"
    unfolding collapse_replacement_def collapse_spaces_def
    by (intro ascii_truncate_name ascii_guard_reserved ascii_strip_chars ascii_collapse_runs
          ascii_replace_invalid ascii_replace_control sp assms)
  with u show ?thesis by (simp add: sanitize_filename_def Let_def)
qed

subsection \<open>Idempotence\<close>

text \<open>
  C4, amended. For a name of ASCII characters the sanitised name is again of ASCII characters,
  and sanitising it once more changes nothing whenever it neither begins nor ends with a period.
\<close>

theorem sanitize_filename_idempotent_amended:
  assumes "ascii_text x"
    and "hd (sanitize_filename x) \<noteq> CHR ''.''" "last (sanitize_filename x) \<noteq> CHR ''.''"
  shows "ascii_text (sanitize_filename x) \<and>
         sanitize_filename (sanitize_filename x) = sanitize_filename x"
proof
  show "ascii_text (sanitize_filename x)" using assms(1) by (rule sanitize_filename_ascii)
  show "sanitize_filename (sanitize_filename x) = sanitize_filename x"
  proof (cases "x = []")
    case True
    then have "sanitize_filename x = ''untitled''" by (simp add: sanitize_filename_def)
    then show ?thesis by (simp only: untitled_fixed)
  next
    case False
    then show ?thesis using assms(2,3) by (rule idempotent_nonempty)
  qed
qed

lemma sanitize_witness_values:
  "sanitize_filename ''Chapter 1: Introduction'' = ''Chapter 1_ Introduction''"
  "sanitize_filename [] = ''untitled''"
  "sanitize_filename ''<?>*'' = ''untitled''"
  by code_simp+

lemma sanitize_witness_long:
  "sanitize_filename (replicate 300 CHR ''a'' @ ''.pdf'') =
     replicate 241 CHR ''a'' @ ''....pdf''"
  by code_simp

lemma ascii_witness_inputs:
  "ascii_text ''Chapter 1: Introduction''" "ascii_text []" "ascii_text ''<?>*''"
  "ascii_text (replicate 300 CHR ''a'' @ ''.pdf'')"
  by (simp_all add: ascii_text_def list_all_iff)

theorem sanitize_filename_idempotent_amended_witness:
  "sanitize_filename ''Chapter 1: Introduction'' = ''Chapter 1_ Introduction'' \<and>
   sanitize_filename (sanitize_filename ''Chapter 1: Introduction'') =
     sanitize_filename ''Chapter 1: Introduction'' \<and>
   sanitize_filename (sanitize_filename []) = sanitize_filename [] \<and>
   sanitize_filename (sanitize_filename ''<?>*'') = sanitize_filename ''<?>*'' \<and>
   sanitize_filename (replicate 300 CHR ''a'' @ ''.pdf'') =
     replicate 241 CHR ''a'' @ ''....pdf'' \<and>
   sanitize_filename (sanitize_filename (replicate 300 CHR ''a'' @ ''.pdf'')) =
     sanitize_filename (replicate 300 CHR ''a'' @ ''.pdf'')"
proof -
  have h1: "hd (sanitize_filename ''Chapter 1: Introduction'') \<noteq> CHR ''.''"
    "last (sanitize_filename ''Chapter 1: Introduction'') \<noteq> CHR ''.''"
    by (simp_all add: sanitize_witness_values)
  have h2: "hd (sanitize_filename []) \<noteq> CHR ''.''" "last (sanitize_filename []) \<noteq> CHR ''.''"
    by (simp_all add: sanitize_witness_values)
  have h3: "hd (sanitize_filename ''<?>*'') \<noteq> CHR ''.''"
    "last (sanitize_filename ''<?>*'') \<noteq> CHR ''.''"
    by (simp_all add: sanitize_witness_values)
  have h4: "hd (sanitize_filename (replicate 300 CHR ''a'' @ ''.pdf'')) \<noteq> CHR ''.''"
    "last (sanitize_filename (replicate 300 CHR ''a'' @ ''.pdf'')) \<noteq> CHR ''.''"
    unfolding sanitize_witness_long by (simp_all add: hd_append)
  from sanitize_filename_idempotent_amended[OF ascii_witness_inputs(1) h1]
    sanitize_filename_idempotent_amended[OF ascii_witness_inputs(2) h2]
    sanitize_filename_idempotent_amended[OF ascii_witness_inputs(3) h3]
    sanitize_filename_idempotent_amended[OF ascii_witness_inputs(4) h4]
    sanitize_witness_values(1) sanitize_witness_long
  show ?thesis by blast
qed

text \<open>
  C4 as the specification states it fails on the code. The name \<open>_.a\<close> is sanitised to
  \<open>.a\<close> (the underscore is stripped after the periods were), and \<open>.a\<close> is sanitised to
  \<open>a\<close>. A name of 300 letters is cut to 245 letters and three periods, and the next pass strips
  the periods.
\<close>

lemma sanitize_short_steps:
  "sanitize_filename ''_.a'' = ''.a''" "sanitize_filename ''.a'' = ''a''"
  by code_simp+

lemma sanitize_long_step1:
  "sanitize_filename (replicate 300 CHR ''a'') = replicate 245 CHR ''a'' @ ''...''"
  by code_simp

lemma sanitize_long_step2:
  "sanitize_filename (replicate 245 CHR ''a'' @ ''...'') = replicate 245 CHR ''a''"
  by code_simp

lemma sanitize_long_differ: "replicate 245 CHR ''a'' \<noteq> replicate 245 CHR ''a'' @ ''...''"
  by simp

theorem sanitize_filename_idempotent_counterexample:
  "sanitize_filename ''_.a'' = ''.a'' \<and>
   sanitize_filename (sanitize_filename ''_.a'') = ''a'' \<and>
   sanitize_filename (sanitize_filename ''_.a'') \<noteq> sanitize_filename ''_.a'' \<and>
   sanitize_filename (replicate 300 CHR ''a'') = replicate 245 CHR ''a'' @ ''...'' \<and>
   sanitize_filename (sanitize_filename (replicate 300 CHR ''a'')) = replicate 245 CHR ''a'' \<and>
   sanitize_filename (sanitize_filename (replicate 300 CHR ''a'')) \<noteq>
     sanitize_filename (replicate 300 CHR ''a'')"
  unfolding sanitize_short_steps sanitize_long_step1 sanitize_long_step2
  using sanitize_long_differ by simp

section \<open>Properties of heuristic detection in EPUB content\<close>

lemma find_append_first:
  "List.find P (xs @ ys) = (case List.find P xs of None \<Rightarrow> List.find P ys | Some x \<Rightarrow> Some x)"
  by (induction xs) auto

lemma find_concat_at:
  assumes "k < length xss" "\<forall>j<k. \<forall>u \<in> set (xss ! j). \<not> P u" "List.find P (xss ! k) = Some t"
  shows "List.find P (concat xss) = Some t"
  using assms
proof (induction xss arbitrary: k)
  case Nil
  then show ?case by simp
next
  case (Cons xs xss)
  show ?case
  proof (cases k)
    case 0
    with Cons.prems(3) show ?thesis by (simp add: find_append_first)
  next
    case (Suc m)
    have none: "List.find P xs = None"
      using Cons.prems(2) Suc by (auto simp: find_None_iff)
    have "List.find P (concat xss) = Some t"
    proof (rule Cons.IH[of m])
      show "m < length xss" using Cons.prems(1) Suc by simp
      show "\<forall>j<m. \<forall>u\<in>set (xss ! j). \<not> P u"
        using Cons.prems(2) Suc by auto
      show "List.find P (xss ! m) = Some t" using Cons.prems(3) Suc by simp
    qed
    then show ?thesis by (simp add: find_append_first none)
  qed
qed

lemma find_concat_none:
  assumes "\<forall>j<length xss. \<forall>u \<in> set (xss ! j). \<not> P u"
  shows "List.find P (concat xss) = None"
proof -
  have "\<forall>u \<in> set (concat xss). \<not> P u"
  proof
    fix u assume "u \<in> set (concat xss)"
    then obtain xs where "xs \<in> set xss" "u \<in> set xs" by auto
    then obtain j where "j < length xss" "xss ! j = xs" by (auto simp: in_set_conv_nth)
    with assms \<open>u \<in> set xs\<close> show "\<not> P u" by blast
  qed
  then show ?thesis unfolding find_None_iff by blast
qed

lemma extract_title_heading:
  assumes "k < length heading_tags"
    and "\<forall>j<k. \<forall>u \<in> set (find_all soup (heading_tags ! j)). u = []"
    and "List.find (\<lambda>u. u \<noteq> []) (find_all soup (heading_tags ! k)) = Some t"
  shows "extract_title_from_content soup item = t"
proof -
  have "List.find (\<lambda>u. u \<noteq> []) (concat (map (find_all soup) heading_tags)) = Some t"
  proof (rule find_concat_at[of k])
    show "k < length (map (find_all soup) heading_tags)" using assms(1) by simp
    show "\<forall>j<k. \<forall>u\<in>set (map (find_all soup) heading_tags ! j). \<not> u \<noteq> []"
      using assms(1,2) by simp
    show "List.find (\<lambda>u. u \<noteq> []) (map (find_all soup) heading_tags ! k) = Some t"
      using assms(1,3) by simp
  qed
  then show ?thesis by (simp add: extract_title_from_content_def)
qed

lemma extract_title_stem:
  assumes "\<forall>j<length heading_tags. \<forall>u \<in> set (find_all soup (heading_tags ! j)). u = []"
  shows "extract_title_from_content soup item =
         (case file_name item of Some fn \<Rightarrow> path_stem (path_name fn) | None \<Rightarrow> [])"
proof -
  have "List.find (\<lambda>u. u \<noteq> []) (concat (map (find_all soup) heading_tags)) = None"
    by (rule find_concat_none) (use assms in simp)
  then show ?thesis by (simp add: extract_title_from_content_def)
qed

text \<open>
  C6, amended. For a content item with non-empty content, the chapter title is the sanitised
  text of the first non-empty heading, where all \<open>h1\<close> elements come before all \<open>h2\<close>, then
  \<open>h3\<close>, then \<open>title\<close>, and within one tag name the document order decides; the confidence
  is 0.6. When none of these elements has text, the title is the sanitised stem of the item's file
  name, and the confidence is 0.6 as well.
\<close>

theorem content_chapter_title:
  assumes "item_content item = Some content" "content \<noteq> []"
  shows "heading_tags = [''h1'', ''h2'', ''h3'', ''title''] \<and>
    (\<forall>k t. k < length heading_tags \<and>
        (\<forall>j<k. \<forall>u \<in> set (find_all (parse content) (heading_tags ! j)). u = []) \<and>
        List.find (\<lambda>u. u \<noteq> []) (find_all (parse content) (heading_tags ! k)) = Some t \<longrightarrow>
        (\<exists>c. content_chapter parse doc_id idx item = Some c \<and>
             title c = sanitize_filename t \<and> confidence_score c = 0.6)) \<and>
    ((\<forall>j<length heading_tags.
         \<forall>u \<in> set (find_all (parse content) (heading_tags ! j)). u = []) \<longrightarrow>
       (\<forall>fn. file_name item = Some fn \<and> path_stem (path_name fn) \<noteq> [] \<longrightarrow>
          (\<exists>c. content_chapter parse doc_id idx item = Some c \<and>
               title c = sanitize_filename (path_stem (path_name fn)) \<and>
               confidence_score c = 0.6)))"
proof (intro conjI allI impI)
  show "heading_tags = [''h1'', ''h2'', ''h3'', ''title'']" by (simp add: heading_tags_def)
next
  fix k t
  assume h: "k < length heading_tags \<and>
        (\<forall>j<k. \<forall>u \<in> set (find_all (parse content) (heading_tags ! j)). u = []) \<and>
        List.find (\<lambda>u. u \<noteq> []) (find_all (parse content) (heading_tags ! k)) = Some t"
  then have t: "extract_title_from_content (parse content) item = t"
    using extract_title_heading[of k "parse content" t item] by blast
  have "t \<noteq> []" using h by (auto simp: find_Some_iff)
  then show "\<exists>c. content_chapter parse doc_id idx item = Some c \<and>
             title c = sanitize_filename t \<and> confidence_score c = 0.6"
    using assms by (simp add: content_chapter_def t Let_def)
next
  fix fn
  assume none: "\<forall>j<length heading_tags.
         \<forall>u \<in> set (find_all (parse content) (heading_tags ! j)). u = []"
    and fn: "file_name item = Some fn \<and> path_stem (path_name fn) \<noteq> []"
  have t: "extract_title_from_content (parse content) item = path_stem (path_name fn)"
    using extract_title_stem[OF none, of item] fn by simp
  show "\<exists>c. content_chapter parse doc_id idx item = Some c \<and>
               title c = sanitize_filename (path_stem (path_name fn)) \<and>
               confidence_score c = 0.6"
    using assms fn by (simp add: content_chapter_def t Let_def)
qed

text \<open>
  C6 as the specification states it fails on the code: an item without any heading gets its file
  stem as title, and the chapter still has the confidence 0.6, not 0.3.
\<close>

lemma sanitize_ch1: "sanitize_filename ''ch1'' = ''ch1''"
  by code_simp

lemma stem_ch1: "path_stem (path_name ''Text/ch1.xhtml'') = ''ch1''"
  by code_simp

theorem content_chapter_confidence_counterexample:
  "content_chapter (\<lambda>content. [(''p'', ''text'')]) None 0
     \<lparr>file_name = Some ''Text/ch1.xhtml'', item_content = Some ''<p>text</p>''\<rparr> =
     Some (Chapter_default\<lparr>chapter_number := 1, title := ''ch1'', xpath := ''Text/ch1.xhtml'',
             confidence_score := 0.6\<rparr>) \<and>
   confidence_score (Chapter_default\<lparr>chapter_number := 1, title := ''ch1'',
             xpath := ''Text/ch1.xhtml'', confidence_score := 0.6\<rparr>) \<noteq> 0.3"
  by (simp add: content_chapter_def extract_title_from_content_def find_all_def heading_tags_def
        Let_def stem_ch1 sanitize_ch1 Chapter_default_def)

theorem content_chapter_title_witness:
  "item_content \<lparr>file_name = Some ''Text/ch1.xhtml'', item_content = Some ''<h2>Two</h2>''\<rparr> =
     Some ''<h2>Two</h2>'' \<and>
   (\<exists>c. content_chapter (\<lambda>content. [(''h1'', []), (''h2'', ''Two'')]) None 0
         \<lparr>file_name = Some ''Text/ch1.xhtml'', item_content = Some ''<h2>Two</h2>''\<rparr> = Some c \<and>
        title c = sanitize_filename ''Two'' \<and> confidence_score c = 0.6)"
proof -
  let ?item = "\<lparr>file_name = Some ''Text/ch1.xhtml'', item_content = Some ''<h2>Two</h2>''\<rparr>"
  let ?parse = "\<lambda>content::string. [(''h1'', []), (''h2'', ''Two'')]"
  have a1: "item_content ?item = Some ''<h2>Two</h2>''" by simp
  have a2: "''<h2>Two</h2>'' \<noteq> []" by simp
  have k: "(1::nat) < length heading_tags \<and>
        (\<forall>j<1. \<forall>u \<in> set (find_all (?parse ''<h2>Two</h2>'') (heading_tags ! j)). u = []) \<and>
        List.find (\<lambda>u. u \<noteq> []) (find_all (?parse ''<h2>Two</h2>'') (heading_tags ! 1)) = Some ''Two''"
    by (simp add: heading_tags_def find_all_def)
  from content_chapter_title[OF a1 a2, of ?parse None 0] k
  have "\<exists>c. content_chapter ?parse None 0 ?item = Some c \<and>
        title c = sanitize_filename ''Two'' \<and> confidence_score c = 0.6"
    by blast
  with a1 show ?thesis by blast
qed

section \<open>Properties of the structural traversals\<close>

subsection \<open>The traversals return\<close>





subsection \<open>The chapters only grow\<close>









subsection \<open>Cyclic structures\<close>















section \<open>Properties of reading a PDF document\<close>

lemma post_init_fields:
  "doc_title (Document_post_init d) = doc_title d"
  "doc_author (Document_post_init d) = doc_author d"
  "doc_metadata (Document_post_init d) = doc_metadata d"
  by (simp_all add: Document_post_init_def Let_def)

lemma read_fields:
  "read_pdf_document path (File st_size opened) = Inr doc \<Longrightarrow>
     doc_title doc = metadata_get_str (extract_pdf_metadata path opened) ''title''
                       (path_stem (path_name path)) \<and>
     doc_author doc = metadata_get_str (extract_pdf_metadata path opened) ''author'' [] \<and>
     doc_metadata doc = extract_pdf_metadata path opened"
  by (auto simp: read_pdf_document_def Let_def post_init_fields)

lemma extract_failed:
  assumes "opened = Raises \<or>
     (\<exists>reader. opened = Returns reader \<and>
        (reader_pages reader = Raises \<or>
         (\<exists>n. reader_pages reader = Returns n) \<and> reader_metadata reader = Raises))"
  shows "extract_pdf_metadata path opened =
           [''title'' \<mapsto> MStr (path_stem (path_name path)),
            ''author'' \<mapsto> MStr ''unknown'',
            ''page_count'' \<mapsto> MInt 0]"
proof -
  have "\<exists>e. extract_pdf_metadata_try opened = Inl e"
    using assms by (auto simp: extract_pdf_metadata_try_def Let_def)
  then show ?thesis by (auto simp: extract_pdf_metadata_def)
qed

lemma extract_no_info:
  assumes "opened = Returns reader" "reader_pages reader = Returns n"
    "reader_metadata reader = Returns None"
  shows "extract_pdf_metadata path opened ''page_count'' = Some (MInt (int n))"
    "extract_pdf_metadata path opened ''title'' = None"
    "extract_pdf_metadata path opened ''author'' = None"
  using assms
  by (simp_all add: extract_pdf_metadata_def extract_pdf_metadata_try_def Let_def)

lemma extract_info:
  assumes "opened = Returns reader" "reader_pages reader = Returns n"
    "reader_metadata reader = Returns (Some pdf_meta)" "pdf_meta \<noteq> Map.empty"
  shows "extract_pdf_metadata path opened ''page_count'' = Some (MInt (int n))"
    "extract_pdf_metadata path opened ''author'' = Some (MStr (safe_get_pdf_meta pdf_meta ''/Author''))"
  using assms
  by (simp_all add: extract_pdf_metadata_def extract_pdf_metadata_try_def Let_def)

text \<open>
  C8, amended. Reading an existing file never raises: a document is always returned, with the
  extracted metadata, its title taken from the key \<open>title\<close> (default: the stem of the file name)
  and its author from the key \<open>author\<close> (default: the empty string). When the file cannot be
  parsed, the metadata are exactly the stem as title, \<open>unknown\<close> as author and the page count 0,
  and the document has that title and that author. When the file has no information dictionary,
  the page count is the number of pages, the keys \<open>title\<close> and \<open>author\<close> are absent, the document
  title is the stem and the document author is empty. With an information dictionary the author
  is the stripped text of \<open>/Author\<close>, and the empty string when that entry is missing.
\<close>

theorem read_pdf_document_defaults:
  "(\<exists>doc. read_pdf_document path (File st_size opened) = Inr doc \<and>
          doc_metadata doc = extract_pdf_metadata path opened \<and>
          doc_title doc = metadata_get_str (doc_metadata doc) ''title''
                            (path_stem (path_name path)) \<and>
          doc_author doc = metadata_get_str (doc_metadata doc) ''author'' []) \<and>
   (opened = Raises \<or>
      (\<exists>reader. opened = Returns reader \<and>
         (reader_pages reader = Raises \<or>
          (\<exists>n. reader_pages reader = Returns n) \<and> reader_metadata reader = Raises)) \<longrightarrow>
      extract_pdf_metadata path opened =
        [''title'' \<mapsto> MStr (path_stem (path_name path)),
         ''author'' \<mapsto> MStr ''unknown'',
         ''page_count'' \<mapsto> MInt 0] \<and>
      (\<exists>doc. read_pdf_document path (File st_size opened) = Inr doc \<and>
          doc_title doc = path_stem (path_name path) \<and> doc_author doc = ''unknown'')) \<and>
   (\<forall>reader n. opened = Returns reader \<and> reader_pages reader = Returns n \<and>
        reader_metadata reader = Returns None \<longrightarrow>
      extract_pdf_metadata path opened ''page_count'' = Some (MInt (int n)) \<and>
      extract_pdf_metadata path opened ''title'' = None \<and>
      extract_pdf_metadata path opened ''author'' = None \<and>
      (\<exists>doc. read_pdf_document path (File st_size opened) = Inr doc \<and>
          doc_title doc = path_stem (path_name path) \<and> doc_author doc = [])) \<and>
   (\<forall>reader n pdf_meta. opened = Returns reader \<and> reader_pages reader = Returns n \<and>
        reader_metadata reader = Returns (Some pdf_meta) \<and> pdf_meta \<noteq> Map.empty \<longrightarrow>
      extract_pdf_metadata path opened ''page_count'' = Some (MInt (int n)) \<and>
      extract_pdf_metadata path opened ''author'' =
        Some (MStr (safe_get_pdf_meta pdf_meta ''/Author'')) \<and>
      (pdf_meta ''/Author'' = None \<longrightarrow> safe_get_pdf_meta pdf_meta ''/Author'' = []) \<and>
      (\<exists>doc. read_pdf_document path (File st_size opened) = Inr doc \<and>
          doc_author doc = safe_get_pdf_meta pdf_meta ''/Author''))"
proof -
  obtain doc where doc: "read_pdf_document path (File st_size opened) = Inr doc"
    by (simp add: read_pdf_document_def Let_def)
  note f = read_fields[OF doc]
  have 1: "\<exists>doc. read_pdf_document path (File st_size opened) = Inr doc \<and>
          doc_metadata doc = extract_pdf_metadata path opened \<and>
          doc_title doc = metadata_get_str (doc_metadata doc) ''title''
                            (path_stem (path_name path)) \<and>
          doc_author doc = metadata_get_str (doc_metadata doc) ''author'' []"
    using doc f by auto
  have 2: "extract_pdf_metadata path opened =
        [''title'' \<mapsto> MStr (path_stem (path_name path)),
         ''author'' \<mapsto> MStr ''unknown'',
         ''page_count'' \<mapsto> MInt 0] \<and>
      (\<exists>doc. read_pdf_document path (File st_size opened) = Inr doc \<and>
          doc_title doc = path_stem (path_name path) \<and> doc_author doc = ''unknown'')"
    if a: "opened = Raises \<or>
      (\<exists>reader. opened = Returns reader \<and>
         (reader_pages reader = Raises \<or>
          (\<exists>n. reader_pages reader = Returns n) \<and> reader_metadata reader = Raises))"
  proof -
    note e = extract_failed[OF a, of path]
    have "doc_title doc = path_stem (path_name path)" "doc_author doc = ''unknown''"
      using f by (simp_all add: e metadata_get_str_def)
    with e doc show ?thesis by blast
  qed
  have 3: "extract_pdf_metadata path opened ''page_count'' = Some (MInt (int n)) \<and>
      extract_pdf_metadata path opened ''title'' = None \<and>
      extract_pdf_metadata path opened ''author'' = None \<and>
      (\<exists>doc. read_pdf_document path (File st_size opened) = Inr doc \<and>
          doc_title doc = path_stem (path_name path) \<and> doc_author doc = [])"
    if a: "opened = Returns reader \<and> reader_pages reader = Returns n \<and>
        reader_metadata reader = Returns None" for reader n
  proof -
    from a have a1: "opened = Returns reader" and a2: "reader_pages reader = Returns n"
      and a3: "reader_metadata reader = Returns None" by simp_all
    note e = extract_no_info[OF a1 a2 a3, of path]
    have "doc_title doc = path_stem (path_name path)" "doc_author doc = []"
      using f by (simp_all add: e metadata_get_str_def)
    with e doc show ?thesis by blast
  qed
  have 4: "extract_pdf_metadata path opened ''page_count'' = Some (MInt (int n)) \<and>
      extract_pdf_metadata path opened ''author'' =
        Some (MStr (safe_get_pdf_meta pdf_meta ''/Author'')) \<and>
      (pdf_meta ''/Author'' = None \<longrightarrow> safe_get_pdf_meta pdf_meta ''/Author'' = []) \<and>
      (\<exists>doc. read_pdf_document path (File st_size opened) = Inr doc \<and>
          doc_author doc = safe_get_pdf_meta pdf_meta ''/Author'')"
    if a: "opened = Returns reader \<and> reader_pages reader = Returns n \<and>
        reader_metadata reader = Returns (Some pdf_meta) \<and> pdf_meta \<noteq> Map.empty"
    for reader n pdf_meta
  proof -
    from a have a1: "opened = Returns reader" and a2: "reader_pages reader = Returns n"
      and a3: "reader_metadata reader = Returns (Some pdf_meta)" and a4: "pdf_meta \<noteq> Map.empty"
      by simp_all
    note e = extract_info[OF a1 a2 a3 a4, of path]
    have "doc_author doc = safe_get_pdf_meta pdf_meta ''/Author''"
      using f by (simp add: e metadata_get_str_def)
    moreover have "pdf_meta ''/Author'' = None \<longrightarrow> safe_get_pdf_meta pdf_meta ''/Author'' = []"
      by (auto simp: safe_get_pdf_meta_def)
    ultimately show ?thesis using e doc by blast
  qed
  show ?thesis using 1 2 3 4 by blast
qed

text \<open>
  C8 as the specification states it fails on the code: the author of a readable PDF without an
  author entry is the empty string, not \<open>unknown\<close>, with and without an information dictionary.
\<close>

lemma stem_book: "path_stem (path_name ''book.pdf'') = ''book''"
  by code_simp

theorem read_pdf_document_author_counterexample:
  "map_sum id doc_author (read_pdf_document ''book.pdf'' (File 10 (Returns plain_reader))) =
     Inr [] \<and>
   extract_pdf_metadata ''book.pdf'' (Returns titled_reader) ''author'' = Some (MStr []) \<and>
   map_sum id doc_author (read_pdf_document ''book.pdf'' (File 10 (Returns titled_reader))) =
     Inr [] \<and>
   [] \<noteq> ''unknown''"
  by (simp add: read_pdf_document_def Let_def post_init_fields extract_pdf_metadata_def
        extract_pdf_metadata_try_def plain_reader_def titled_reader_def metadata_get_str_def
        safe_get_pdf_meta_def)

theorem read_pdf_document_defaults_witness:
  "map_sum id (\<lambda>doc. (doc_title doc, doc_author doc))
     (read_pdf_document ''book.pdf'' (File 10 Raises)) = Inr (''book'', ''unknown'') \<and>
   extract_pdf_metadata ''book.pdf'' Raises ''page_count'' = Some (MInt 0)"
proof -
  have h: "(Raises :: pdf_reader attempt) = Raises \<or>
      (\<exists>reader. (Raises :: pdf_reader attempt) = Returns reader \<and>
         (reader_pages reader = Raises \<or>
          (\<exists>n. reader_pages reader = Returns n) \<and> reader_metadata reader = Raises))"
    by simp
  from read_pdf_document_defaults[of "''book.pdf''" 10 Raises] h
  obtain doc where "extract_pdf_metadata ''book.pdf'' Raises =
        [''title'' \<mapsto> MStr (path_stem (path_name ''book.pdf'')),
         ''author'' \<mapsto> MStr ''unknown'',
         ''page_count'' \<mapsto> MInt 0]"
    "read_pdf_document ''book.pdf'' (File 10 Raises) = Inr doc"
    "doc_title doc = path_stem (path_name ''book.pdf'')" "doc_author doc = ''unknown''"
    by blast
  then show ?thesis by (simp add: stem_book)
qed


section \<open>Splitting into chapter files\<close>

subsection \<open>One PDF chapter and the loop over the chapters\<close>

lemma pdf_step_invalid:
  "\<not> is_valid_pdf_chapter c \<Longrightarrow>
     split_pdf_chapter dai sho document settings ext n (c, io) st =
       (c, st\<lparr>logged := logged st @ [WarnInvalidChapter (title c)]\<rparr>)"
  by (simp add: split_pdf_chapter_def)

lemma pdf_step_fails:
  assumes "is_valid_pdf_chapter c" "pdf_chapter_fails io"
  shows "split_status (fst (split_pdf_chapter dai sho document settings ext n (c, io) st)) = ERROR"
    and "output_files (snd (split_pdf_chapter dai sho document settings ext n (c, io) st)) =
           output_files st"
  using assms
  by (auto simp: split_pdf_chapter_def pdf_chapter_fails_def Let_def split: save_outcome.splits)

lemma pdf_step_succeeds:
  assumes "is_valid_pdf_chapter c" "\<not> pdf_chapter_fails io"
  shows "split_status (fst (split_pdf_chapter dai sho document settings ext n (c, io) st)) = SUCCESS"
    and "output_files (snd (split_pdf_chapter dai sho document settings ext n (c, io) st)) =
           output_files st @
           [output_file_path (fst (split_pdf_chapter dai sho document settings ext n (c, io) st))]"
  using assms
  by (auto simp: split_pdf_chapter_def pdf_chapter_fails_def Let_def split: save_outcome.splits)

lemma pdf_step_outputs_grow:
  "\<exists>more. output_files (snd (split_pdf_chapter dai sho document settings ext n job st)) =
      output_files st @ more"
  by (cases job)
     (auto simp: split_pdf_chapter_def Let_def split: save_outcome.splits)

lemma pdf_loop_outputs_grow:
  "\<exists>more. output_files (snd (split_pdf_loop dai sho document settings ext n jobs st)) =
      output_files st @ more"
proof (induction jobs arbitrary: st)
  case Nil
  then show ?case by simp
next
  case (Cons job jobs)
  obtain c1 st1 where s: "split_pdf_chapter dai sho document settings ext n job st = (c1, st1)"
    by (cases "split_pdf_chapter dai sho document settings ext n job st")
  obtain cs st2 where l: "split_pdf_loop dai sho document settings ext n jobs st1 = (cs, st2)"
    by (cases "split_pdf_loop dai sho document settings ext n jobs st1")
  from pdf_step_outputs_grow[of dai sho document settings ext n job st] s
  obtain m1 where m1: "output_files st1 = output_files st @ m1" by auto
  from Cons.IH[of st1] l obtain m2 where m2: "output_files st2 = output_files st1 @ m2" by auto
  show ?case by (simp add: s l m1 m2)
qed

lemma pdf_loop_length:
  "length (fst (split_pdf_loop dai sho document settings ext n jobs st)) = length jobs"
proof (induction jobs arbitrary: st)
  case Nil
  then show ?case by simp
next
  case (Cons job jobs)
  obtain c1 st1 where s: "split_pdf_chapter dai sho document settings ext n job st = (c1, st1)"
    by (cases "split_pdf_chapter dai sho document settings ext n job st")
  obtain cs st2 where l: "split_pdf_loop dai sho document settings ext n jobs st1 = (cs, st2)"
    by (cases "split_pdf_loop dai sho document settings ext n jobs st1")
  from Cons.IH[of st1] l show ?case by (simp add: s)
qed

lemma pdf_loop_chapters:
  assumes "i < length jobs" "is_valid_pdf_chapter (fst (jobs ! i))"
  shows "(pdf_chapter_fails (snd (jobs ! i)) \<longrightarrow>
           split_status (fst (split_pdf_loop dai sho document settings ext n jobs st) ! i) = ERROR) \<and>
         (\<not> pdf_chapter_fails (snd (jobs ! i)) \<longrightarrow>
           split_status (fst (split_pdf_loop dai sho document settings ext n jobs st) ! i) = SUCCESS \<and>
           output_file_path (fst (split_pdf_loop dai sho document settings ext n jobs st) ! i)
             \<in> set (output_files (snd (split_pdf_loop dai sho document settings ext n jobs st))))"
  using assms
proof (induction jobs arbitrary: st i)
  case Nil
  then show ?case by simp
next
  case (Cons job jobs)
  obtain c io where job: "job = (c, io)" by (cases job)
  obtain c1 st1 where s: "split_pdf_chapter dai sho document settings ext n job st = (c1, st1)"
    by (cases "split_pdf_chapter dai sho document settings ext n job st")
  obtain cs st2 where l: "split_pdf_loop dai sho document settings ext n jobs st1 = (cs, st2)"
    by (cases "split_pdf_loop dai sho document settings ext n jobs st1")
  have whole: "split_pdf_loop dai sho document settings ext n (job # jobs) st = (c1 # cs, st2)"
    by (simp add: s l)
  from pdf_loop_outputs_grow[of dai sho document settings ext n jobs st1] l
  obtain more where more: "output_files st2 = output_files st1 @ more" by auto
  show ?case
  proof (cases i)
    case 0
    then have v: "is_valid_pdf_chapter c" using Cons.prems(2) job by simp
    show ?thesis
    proof (cases "pdf_chapter_fails io")
      case True
      from pdf_step_fails(1)[OF v True, of dai sho document settings ext n st] s job
      have "split_status c1 = ERROR" by simp
      with True 0 job show ?thesis unfolding whole by simp
    next
      case False
      from pdf_step_succeeds[OF v False, of dai sho document settings ext n st] s job
      have "split_status c1 = SUCCESS" "output_files st1 = output_files st @ [output_file_path c1]"
        by simp_all
      with False 0 job more show ?thesis unfolding whole by simp
    qed
  next
    case (Suc k)
    then have k: "k < length jobs" "is_valid_pdf_chapter (fst (jobs ! k))"
      using Cons.prems by simp_all
    from Cons.IH[OF k, of st1] l Suc show ?thesis unfolding whole by simp
  qed
qed

lemma pdf_step_same_files:
  assumes "same_files st st'"
  shows "fst (split_pdf_chapter dai sho document settings ext n job st) =
         fst (split_pdf_chapter dai sho document settings ext n job st')"
    and "same_files (snd (split_pdf_chapter dai sho document settings ext n job st))
           (snd (split_pdf_chapter dai sho document settings ext n job st'))"
  using assms
  by (auto simp: split_pdf_chapter_def same_files_def Let_def split: save_outcome.splits)

lemma pdf_loop_same_files:
  assumes "same_files st st'"
  shows "fst (split_pdf_loop dai sho document settings ext n jobs st) =
         fst (split_pdf_loop dai sho document settings ext n jobs st') \<and>
         same_files (snd (split_pdf_loop dai sho document settings ext n jobs st))
           (snd (split_pdf_loop dai sho document settings ext n jobs st'))"
  using assms
proof (induction jobs arbitrary: st st')
  case Nil
  then show ?case by simp
next
  case (Cons job jobs)
  obtain c1 st1 where s: "split_pdf_chapter dai sho document settings ext n job st = (c1, st1)"
    by (cases "split_pdf_chapter dai sho document settings ext n job st")
  obtain c1' st1' where s': "split_pdf_chapter dai sho document settings ext n job st' = (c1', st1')"
    by (cases "split_pdf_chapter dai sho document settings ext n job st'")
  from pdf_step_same_files[OF Cons.prems, of dai sho document settings ext n job] s s'
  have c: "c1 = c1'" and sf: "same_files st1 st1'" by simp_all
  from Cons.IH[OF sf] show ?case
    by (auto simp add: s s' c split: prod.splits)
qed

lemma pdf_loop_append:
  "split_pdf_loop dai sho document settings ext n (js1 @ js2) st =
     (let (cs1, st1) = split_pdf_loop dai sho document settings ext n js1 st;
          (cs2, st2) = split_pdf_loop dai sho document settings ext n js2 st1
      in (cs1 @ cs2, st2))"
proof (induction js1 arbitrary: st)
  case Nil
  then show ?case by (simp split: prod.splits)
next
  case (Cons job js1)
  then show ?case by (simp split: prod.splits)
qed

lemma logged_grows_pdf_step:
  "\<exists>more. logged (snd (split_pdf_chapter dai sho document settings ext n job st)) =
      logged st @ more"
  by (cases job) (auto simp: split_pdf_chapter_def Let_def split: save_outcome.splits)

lemma logged_grows_pdf_loop:
  "\<exists>more. logged (snd (split_pdf_loop dai sho document settings ext n jobs st)) =
      logged st @ more"
proof (induction jobs arbitrary: st)
  case Nil
  then show ?case by simp
next
  case (Cons job jobs)
  obtain c1 st1 where s: "split_pdf_chapter dai sho document settings ext n job st = (c1, st1)"
    by (cases "split_pdf_chapter dai sho document settings ext n job st")
  obtain cs st2 where l: "split_pdf_loop dai sho document settings ext n jobs st1 = (cs, st2)"
    by (cases "split_pdf_loop dai sho document settings ext n jobs st1")
  from logged_grows_pdf_step[of dai sho document settings ext n job st] s
  obtain m1 where m1: "logged st1 = logged st @ m1" by auto
  from Cons.IH[of st1] l obtain m2 where m2: "logged st2 = logged st1 @ m2" by auto
  show ?case by (simp add: s l m1 m2)
qed

lemma pdf_skip_invalid:
  assumes inv: "\<not> is_valid_pdf_chapter c"
  shows "\<exists>cs1 cs2 st st'.
     split_pdf_loop dai sho document settings ext n (js1 @ (c, io) # js2) st0 = (cs1 @ c # cs2, st) \<and>
     split_pdf_loop dai sho document settings ext n (js1 @ js2) st0 = (cs1 @ cs2, st') \<and>
     length cs1 = length js1 \<and> same_files st st' \<and>
     WarnInvalidChapter (title c) \<in> set (logged st)"
proof -
  obtain cs1 st1 where l1: "split_pdf_loop dai sho document settings ext n js1 st0 = (cs1, st1)"
    by (cases "split_pdf_loop dai sho document settings ext n js1 st0")
  define st1w where "st1w = st1\<lparr>logged := logged st1 @ [WarnInvalidChapter (title c)]\<rparr>"
  have step: "split_pdf_chapter dai sho document settings ext n (c, io) st1 = (c, st1w)"
    unfolding st1w_def by (rule pdf_step_invalid[OF inv])
  obtain cs2 st2 where l2: "split_pdf_loop dai sho document settings ext n js2 st1w = (cs2, st2)"
    by (cases "split_pdf_loop dai sho document settings ext n js2 st1w")
  obtain cs2' st2' where l2': "split_pdf_loop dai sho document settings ext n js2 st1 = (cs2', st2')"
    by (cases "split_pdf_loop dai sho document settings ext n js2 st1")
  have sf: "same_files st1w st1" by (simp add: same_files_def st1w_def)
  from pdf_loop_same_files[OF sf, of dai sho document settings ext n js2] l2 l2'
  have eq: "cs2 = cs2'" "same_files st2 st2'" by simp_all
  have len: "length cs1 = length js1"
    using pdf_loop_length[of dai sho document settings ext n js1 st0] l1 by simp
  have a: "split_pdf_loop dai sho document settings ext n (js1 @ (c, io) # js2) st0 =
            (cs1 @ c # cs2, st2)"
    by (simp add: pdf_loop_append l1 step l2)
  have b: "split_pdf_loop dai sho document settings ext n (js1 @ js2) st0 = (cs1 @ cs2, st2')"
    by (simp add: pdf_loop_append l1 l2' eq)
  from logged_grows_pdf_loop[of dai sho document settings ext n js2 st1w] l2
  obtain more where "logged st2 = logged st1w @ more" by auto
  then have w: "WarnInvalidChapter (title c) \<in> set (logged st2)" by (simp add: st1w_def)
  show ?thesis using a b len eq(2) w by blast
qed

subsection \<open>One EPUB chapter and the loop over the chapters\<close>

lemma epub_step_invalid:
  "xpath c = [] \<Longrightarrow>
     split_epub_chapter dai sho document settings ext book (c, io) st =
       (c, st\<lparr>logged := logged st @ [WarnInvalidChapter (title c)]\<rparr>)"
  by (simp add: split_epub_chapter_def)

lemma epub_step_fails:
  assumes "xpath c \<noteq> []" "epub_chapter_fails book c io"
  shows "split_status (fst (split_epub_chapter dai sho document settings ext book (c, io) st)) = ERROR"
    and "output_files (snd (split_epub_chapter dai sho document settings ext book (c, io) st)) =
           output_files st"
  using assms
  by (auto simp: split_epub_chapter_def extract_and_save_chapter_def epub_chapter_fails_def Let_def split: save_outcome.splits prod.splits)

lemma epub_step_succeeds:
  assumes "xpath c \<noteq> []" "\<not> epub_chapter_fails book c io"
  shows "split_status (fst (split_epub_chapter dai sho document settings ext book (c, io) st)) = SUCCESS"
    and "output_files (snd (split_epub_chapter dai sho document settings ext book (c, io) st)) =
           output_files st @
           [output_file_path (fst (split_epub_chapter dai sho document settings ext book (c, io) st))]"
  using assms
  by (auto simp: split_epub_chapter_def extract_and_save_chapter_def epub_chapter_fails_def Let_def split: save_outcome.splits prod.splits)

lemma epub_step_outputs_grow:
  "\<exists>more. output_files (snd (split_epub_chapter dai sho document settings ext book job st)) =
      output_files st @ more"
  by (cases job)
     (auto simp: split_epub_chapter_def extract_and_save_chapter_def Let_def split: save_outcome.splits prod.splits)

lemma epub_loop_outputs_grow:
  "\<exists>more. output_files (snd (split_epub_loop dai sho document settings ext book jobs st)) =
      output_files st @ more"
proof (induction jobs arbitrary: st)
  case Nil
  then show ?case by simp
next
  case (Cons job jobs)
  obtain c1 st1 where s: "split_epub_chapter dai sho document settings ext book job st = (c1, st1)"
    by (cases "split_epub_chapter dai sho document settings ext book job st")
  obtain cs st2 where l: "split_epub_loop dai sho document settings ext book jobs st1 = (cs, st2)"
    by (cases "split_epub_loop dai sho document settings ext book jobs st1")
  from epub_step_outputs_grow[of dai sho document settings ext book job st] s
  obtain m1 where m1: "output_files st1 = output_files st @ m1" by auto
  from Cons.IH[of st1] l obtain m2 where m2: "output_files st2 = output_files st1 @ m2" by auto
  show ?case by (simp add: s l m1 m2)
qed

lemma epub_loop_length:
  "length (fst (split_epub_loop dai sho document settings ext book jobs st)) = length jobs"
proof (induction jobs arbitrary: st)
  case Nil
  then show ?case by simp
next
  case (Cons job jobs)
  obtain c1 st1 where s: "split_epub_chapter dai sho document settings ext book job st = (c1, st1)"
    by (cases "split_epub_chapter dai sho document settings ext book job st")
  obtain cs st2 where l: "split_epub_loop dai sho document settings ext book jobs st1 = (cs, st2)"
    by (cases "split_epub_loop dai sho document settings ext book jobs st1")
  from Cons.IH[of st1] l show ?case by (simp add: s)
qed

lemma epub_loop_chapters:
  assumes "i < length jobs" "xpath (fst (jobs ! i)) \<noteq> []"
  shows "(epub_chapter_fails book (fst (jobs ! i)) (snd (jobs ! i)) \<longrightarrow>
           split_status (fst (split_epub_loop dai sho document settings ext book jobs st) ! i) = ERROR) \<and>
         (\<not> epub_chapter_fails book (fst (jobs ! i)) (snd (jobs ! i)) \<longrightarrow>
           split_status (fst (split_epub_loop dai sho document settings ext book jobs st) ! i) = SUCCESS \<and>
           output_file_path (fst (split_epub_loop dai sho document settings ext book jobs st) ! i)
             \<in> set (output_files (snd (split_epub_loop dai sho document settings ext book jobs st))))"
  using assms
proof (induction jobs arbitrary: st i)
  case Nil
  then show ?case by simp
next
  case (Cons job jobs)
  obtain c io where job: "job = (c, io)" by (cases job)
  obtain c1 st1 where s: "split_epub_chapter dai sho document settings ext book job st = (c1, st1)"
    by (cases "split_epub_chapter dai sho document settings ext book job st")
  obtain cs st2 where l: "split_epub_loop dai sho document settings ext book jobs st1 = (cs, st2)"
    by (cases "split_epub_loop dai sho document settings ext book jobs st1")
  have whole: "split_epub_loop dai sho document settings ext book (job # jobs) st = (c1 # cs, st2)"
    by (simp add: s l)
  from epub_loop_outputs_grow[of dai sho document settings ext book jobs st1] l
  obtain more where more: "output_files st2 = output_files st1 @ more" by auto
  show ?case
  proof (cases i)
    case 0
    then have v: "xpath c \<noteq> []" using Cons.prems(2) job by simp
    show ?thesis
    proof (cases "epub_chapter_fails book c io")
      case True
      from epub_step_fails(1)[OF v True, where dai=dai and sho=sho and document=document and settings=settings and ext=ext and st=st] s job
      have "split_status c1 = ERROR" by simp
      with True 0 job show ?thesis unfolding whole by simp
    next
      case False
      from epub_step_succeeds[OF v False, where dai=dai and sho=sho and document=document and settings=settings and ext=ext and st=st] s job
      have "split_status c1 = SUCCESS" "output_files st1 = output_files st @ [output_file_path c1]"
        by simp_all
      with False 0 job more show ?thesis unfolding whole by simp
    qed
  next
    case (Suc k)
    then have k: "k < length jobs" "xpath (fst (jobs ! k)) \<noteq> []"
      using Cons.prems by simp_all
    from Cons.IH[OF k, of st1] l Suc show ?thesis unfolding whole by simp
  qed
qed



lemma epub_step_same_files:
  assumes "same_files st st'"
  shows "fst (split_epub_chapter dai sho document settings ext book job st) =
         fst (split_epub_chapter dai sho document settings ext book job st')"
    and "same_files (snd (split_epub_chapter dai sho document settings ext book job st))
           (snd (split_epub_chapter dai sho document settings ext book job st'))"
  using assms
  by (auto simp: split_epub_chapter_def extract_and_save_chapter_def same_files_def Let_def split: save_outcome.splits prod.splits)

lemma epub_loop_same_files:
  assumes "same_files st st'"
  shows "fst (split_epub_loop dai sho document settings ext book jobs st) =
         fst (split_epub_loop dai sho document settings ext book jobs st') \<and>
         same_files (snd (split_epub_loop dai sho document settings ext book jobs st))
           (snd (split_epub_loop dai sho document settings ext book jobs st'))"
  using assms
proof (induction jobs arbitrary: st st')
  case Nil
  then show ?case by simp
next
  case (Cons job jobs)
  obtain c1 st1 where s: "split_epub_chapter dai sho document settings ext book job st = (c1, st1)"
    by (cases "split_epub_chapter dai sho document settings ext book job st")
  obtain c1' st1' where s': "split_epub_chapter dai sho document settings ext book job st' = (c1', st1')"
    by (cases "split_epub_chapter dai sho document settings ext book job st'")
  from epub_step_same_files[OF Cons.prems, of dai sho document settings ext book job] s s'
  have c: "c1 = c1'" and sf: "same_files st1 st1'" by simp_all
  from Cons.IH[OF sf] show ?case
    by (auto simp add: s s' c split: prod.splits)
qed

lemma epub_loop_append:
  "split_epub_loop dai sho document settings ext book (js1 @ js2) st =
     (let (cs1, st1) = split_epub_loop dai sho document settings ext book js1 st;
          (cs2, st2) = split_epub_loop dai sho document settings ext book js2 st1
      in (cs1 @ cs2, st2))"
proof (induction js1 arbitrary: st)
  case Nil
  then show ?case by (simp split: prod.splits)
next
  case (Cons job js1)
  then show ?case by (simp split: prod.splits)
qed

lemma logged_grows_epub_step:
  "\<exists>more. logged (snd (split_epub_chapter dai sho document settings ext book job st)) =
      logged st @ more"
  by (cases job) (auto simp: split_epub_chapter_def extract_and_save_chapter_def Let_def split: save_outcome.splits prod.splits)

lemma logged_grows_epub_loop:
  "\<exists>more. logged (snd (split_epub_loop dai sho document settings ext book jobs st)) =
      logged st @ more"
proof (induction jobs arbitrary: st)
  case Nil
  then show ?case by simp
next
  case (Cons job jobs)
  obtain c1 st1 where s: "split_epub_chapter dai sho document settings ext book job st = (c1, st1)"
    by (cases "split_epub_chapter dai sho document settings ext book job st")
  obtain cs st2 where l: "split_epub_loop dai sho document settings ext book jobs st1 = (cs, st2)"
    by (cases "split_epub_loop dai sho document settings ext book jobs st1")
  from logged_grows_epub_step[of dai sho document settings ext book job st] s
  obtain m1 where m1: "logged st1 = logged st @ m1" by auto
  from Cons.IH[of st1] l obtain m2 where m2: "logged st2 = logged st1 @ m2" by auto
  show ?case by (simp add: s l m1 m2)
qed

lemma epub_skip_invalid:
  assumes inv: "xpath c = []"
  shows "\<exists>cs1 cs2 st st'.
     split_epub_loop dai sho document settings ext book (js1 @ (c, io) # js2) st0 = (cs1 @ c # cs2, st) \<and>
     split_epub_loop dai sho document settings ext book (js1 @ js2) st0 = (cs1 @ cs2, st') \<and>
     length cs1 = length js1 \<and> same_files st st' \<and>
     WarnInvalidChapter (title c) \<in> set (logged st)"
proof -
  obtain cs1 st1 where l1: "split_epub_loop dai sho document settings ext book js1 st0 = (cs1, st1)"
    by (cases "split_epub_loop dai sho document settings ext book js1 st0")
  define st1w where "st1w = st1\<lparr>logged := logged st1 @ [WarnInvalidChapter (title c)]\<rparr>"
  have step: "split_epub_chapter dai sho document settings ext book (c, io) st1 = (c, st1w)"
    unfolding st1w_def by (rule epub_step_invalid[OF inv])
  obtain cs2 st2 where l2: "split_epub_loop dai sho document settings ext book js2 st1w = (cs2, st2)"
    by (cases "split_epub_loop dai sho document settings ext book js2 st1w")
  obtain cs2' st2' where l2': "split_epub_loop dai sho document settings ext book js2 st1 = (cs2', st2')"
    by (cases "split_epub_loop dai sho document settings ext book js2 st1")
  have sf: "same_files st1w st1" by (simp add: same_files_def st1w_def)
  from epub_loop_same_files[OF sf, of dai sho document settings ext book js2] l2 l2'
  have eq: "cs2 = cs2'" "same_files st2 st2'" by simp_all
  have len: "length cs1 = length js1"
    using epub_loop_length[of dai sho document settings ext book js1 st0] l1 by simp
  have a: "split_epub_loop dai sho document settings ext book (js1 @ (c, io) # js2) st0 =
            (cs1 @ c # cs2, st2)"
    by (simp add: epub_loop_append l1 step l2)
  have b: "split_epub_loop dai sho document settings ext book (js1 @ js2) st0 = (cs1 @ cs2, st2')"
    by (simp add: epub_loop_append l1 l2' eq)
  from logged_grows_epub_loop[of dai sho document settings ext book js2 st1w] l2
  obtain more where "logged st2 = logged st1w @ more" by auto
  then have w: "WarnInvalidChapter (title c) \<in> set (logged st2)" by (simp add: st1w_def)
  show ?thesis using a b len eq(2) w by blast
qed

subsection \<open>The output format and the log\<close>

lemma pdf_step_format:
  "split_pdf_chapter dai sho document (settings\<lparr>output_format := f\<rparr>) ext n job st =
   split_pdf_chapter dai sho document settings ext n job st"
  by (simp add: split_pdf_chapter_def Let_def)

lemma pdf_loop_format:
  "split_pdf_loop dai sho document (settings\<lparr>output_format := f\<rparr>) ext n jobs st =
   split_pdf_loop dai sho document settings ext n jobs st"
  by (induction jobs arbitrary: st) (simp_all add: pdf_step_format)

lemma pdf_step_prepend:
  "split_pdf_chapter dai sho document settings ext n job (prepend_log events st) =
     (fst (split_pdf_chapter dai sho document settings ext n job st),
      prepend_log events (snd (split_pdf_chapter dai sho document settings ext n job st)))"
  by (auto simp: split_pdf_chapter_def prepend_log_def Let_def split: save_outcome.splits)

lemma pdf_loop_prepend:
  "split_pdf_loop dai sho document settings ext n jobs (prepend_log events st) =
     (fst (split_pdf_loop dai sho document settings ext n jobs st),
      prepend_log events (snd (split_pdf_loop dai sho document settings ext n jobs st)))"
proof (induction jobs arbitrary: st)
  case Nil
  then show ?case by simp
next
  case (Cons job jobs)
  obtain c1 st1 where s: "split_pdf_chapter dai sho document settings ext n job st = (c1, st1)"
    by (cases "split_pdf_chapter dai sho document settings ext n job st")
  obtain cs st2 where l: "split_pdf_loop dai sho document settings ext n jobs st1 = (cs, st2)"
    by (cases "split_pdf_loop dai sho document settings ext n jobs st1")
  show ?case by (simp add: pdf_step_prepend s Cons.IH l)
qed

lemma epub_step_format:
  "split_epub_chapter dai sho document (settings\<lparr>output_format := f\<rparr>) ext book job st =
   split_epub_chapter dai sho document settings ext book job st"
  by (simp add: split_epub_chapter_def Let_def)

lemma epub_loop_format:
  "split_epub_loop dai sho document (settings\<lparr>output_format := f\<rparr>) ext book jobs st =
   split_epub_loop dai sho document settings ext book jobs st"
  by (induction jobs arbitrary: st) (simp_all add: epub_step_format)

lemma epub_step_prepend:
  "split_epub_chapter dai sho document settings ext book job (prepend_log events st) =
     (fst (split_epub_chapter dai sho document settings ext book job st),
      prepend_log events (snd (split_epub_chapter dai sho document settings ext book job st)))"
  by (auto simp: split_epub_chapter_def extract_and_save_chapter_def prepend_log_def Let_def
           split: save_outcome.splits prod.splits)

lemma epub_loop_prepend:
  "split_epub_loop dai sho document settings ext book jobs (prepend_log events st) =
     (fst (split_epub_loop dai sho document settings ext book jobs st),
      prepend_log events (snd (split_epub_loop dai sho document settings ext book jobs st)))"
proof (induction jobs arbitrary: st)
  case Nil
  then show ?case by simp
next
  case (Cons job jobs)
  obtain c1 st1 where s: "split_epub_chapter dai sho document settings ext book job st = (c1, st1)"
    by (cases "split_epub_chapter dai sho document settings ext book job st")
  obtain cs st2 where l: "split_epub_loop dai sho document settings ext book jobs st1 = (cs, st2)"
    by (cases "split_epub_loop dai sho document settings ext book jobs st1")
  show ?case by (simp add: epub_step_prepend s Cons.IH l)
qed

lemma pdf_forced_conversion:
  assumes pdf: "doc_file_type document = PDF"
  shows "split_pdf_by_chapters dai sho env document jobs (settings\<lparr>output_format := OUT_EPUB\<rparr>) =
     (case split_pdf_by_chapters dai sho env document jobs
             (settings\<lparr>output_format := SAME_AS_INPUT\<rparr>) of
        Inl e \<Rightarrow> Inl e
      | Inr (outs, cs, st) \<Rightarrow> Inr (outs, cs, prepend_log [WarnConversionUnsupported] st))"
proof (cases "validate_output_directory (dir_usable env) (output_directory settings)")
  case False
  then show ?thesis by (simp add: split_pdf_by_chapters_def)
next
  case True
  show ?thesis
  proof (cases "source_pages env")
    case None
    then show ?thesis using True by (simp add: split_pdf_by_chapters_def)
  next
    case (Some n)
    define st0 where "st0 = \<lparr>existing = files_before env, written = [], logged = [],
                              output_files = []\<rparr>"
    have w: "\<lparr>existing = files_before env, written = [], logged = [WarnConversionUnsupported],
              output_files = []\<rparr> = prepend_log [WarnConversionUnsupported] st0"
      by (simp add: st0_def prepend_log_def)
    obtain cs st1 where l: "split_pdf_loop dai sho document settings ''.pdf'' n jobs st0 = (cs, st1)"
      by (cases "split_pdf_loop dai sho document settings ''.pdf'' n jobs st0")
    have out: "output_files (prepend_log [WarnConversionUnsupported] st1) = output_files st1"
      by (simp add: prepend_log_def)
    show ?thesis
      using True Some pdf
      by (simp add: split_pdf_by_chapters_def pdf_output_extension_def
            requires_format_conversion_def get_output_extension_def pdf_loop_format w
            pdf_loop_prepend l out st0_def[symmetric])
  qed
qed

lemma epub_forced_conversion:
  assumes epub: "doc_file_type document = EPUB"
  shows "split_epub_by_chapters dai sho env document jobs (settings\<lparr>output_format := OUT_PDF\<rparr>) =
     (case split_epub_by_chapters dai sho env document jobs
             (settings\<lparr>output_format := SAME_AS_INPUT\<rparr>) of
        Inl e \<Rightarrow> Inl e
      | Inr (outs, cs, st) \<Rightarrow> Inr (outs, cs, prepend_log [WarnConversionUnsupported] st))"
proof (cases "validate_output_directory (epub_dir_usable env) (output_directory settings)")
  case False
  then show ?thesis by (simp add: split_epub_by_chapters_def)
next
  case True
  show ?thesis
  proof (cases "source_items env")
    case None
    then show ?thesis using True by (simp add: split_epub_by_chapters_def)
  next
    case (Some book)
    define st0 where "st0 = \<lparr>existing = epub_files_before env, written = [], logged = [],
                              output_files = []\<rparr>"
    have w: "\<lparr>existing = epub_files_before env, written = [],
              logged = [WarnConversionUnsupported], output_files = []\<rparr> =
             prepend_log [WarnConversionUnsupported] st0"
      by (simp add: st0_def prepend_log_def)
    obtain cs st1 where
      l: "split_epub_loop dai sho document settings ''.epub'' book jobs st0 = (cs, st1)"
      by (cases "split_epub_loop dai sho document settings ''.epub'' book jobs st0")
    have out: "output_files (prepend_log [WarnConversionUnsupported] st1) = output_files st1"
      by (simp add: prepend_log_def)
    show ?thesis
      using True Some epub
      by (simp add: split_epub_by_chapters_def epub_output_extension_def
            requires_format_conversion_def get_output_extension_def epub_loop_format w
            epub_loop_prepend l out st0_def[symmetric])
  qed
qed

subsection \<open>The whole split\<close>

lemma pdf_split_setup:
  "(split_pdf_by_chapters dai sho env document jobs settings = Inl FileProcessingError) =
     (\<not> validate_output_directory (dir_usable env) (output_directory settings) \<or>
      source_pages env = None)"
  by (simp add: split_pdf_by_chapters_def Let_def split: option.splits prod.splits)

lemma epub_split_setup:
  "(split_epub_by_chapters dai sho env document jobs settings = Inl FileProcessingError) =
     (\<not> validate_output_directory (epub_dir_usable env) (output_directory settings) \<or>
      source_items env = None)"
  by (simp add: split_epub_by_chapters_def Let_def split: option.splits prod.splits)

lemma pdf_split_continues:
  assumes dir: "validate_output_directory (dir_usable env) (output_directory settings)"
    and src: "source_pages env = Some n"
  shows "\<exists>outs cs st.
     split_pdf_by_chapters dai sho env document jobs settings = Inr (outs, cs, st) \<and>
     outs = output_files st \<and> length cs = length jobs \<and>
     (\<forall>i < length jobs. is_valid_pdf_chapter (fst (jobs ! i)) \<longrightarrow>
        (pdf_chapter_fails (snd (jobs ! i)) \<longrightarrow> split_status (cs ! i) = ERROR) \<and>
        (\<not> pdf_chapter_fails (snd (jobs ! i)) \<longrightarrow>
           split_status (cs ! i) = SUCCESS \<and> output_file_path (cs ! i) \<in> set outs))"
proof -
  define st0 where "st0 = \<lparr>existing = files_before env, written = [],
      logged = (if requires_format_conversion settings (doc_file_type document) \<and>
                   output_format settings = OUT_EPUB
                then [WarnConversionUnsupported] else []),
      output_files = []\<rparr>"
  define ext where "ext = pdf_output_extension settings document"
  obtain cs st where l: "split_pdf_loop dai sho document settings ext n jobs st0 = (cs, st)"
    by (cases "split_pdf_loop dai sho document settings ext n jobs st0")
  have run: "split_pdf_by_chapters dai sho env document jobs settings =
               Inr (output_files st, cs, st)"
    using dir src l by (simp add: split_pdf_by_chapters_def st0_def ext_def)
  have len: "length cs = length jobs"
    using pdf_loop_length[of dai sho document settings ext n jobs st0] l by simp
  have each: "\<forall>i < length jobs. is_valid_pdf_chapter (fst (jobs ! i)) \<longrightarrow>
        (pdf_chapter_fails (snd (jobs ! i)) \<longrightarrow> split_status (cs ! i) = ERROR) \<and>
        (\<not> pdf_chapter_fails (snd (jobs ! i)) \<longrightarrow>
           split_status (cs ! i) = SUCCESS \<and> output_file_path (cs ! i) \<in> set (output_files st))"
  proof (intro allI impI)
    fix i
    assume i: "i < length jobs" and v: "is_valid_pdf_chapter (fst (jobs ! i))"
    from pdf_loop_chapters[OF i v, of dai sho document settings ext n st0] l
    show "(pdf_chapter_fails (snd (jobs ! i)) \<longrightarrow> split_status (cs ! i) = ERROR) \<and>
        (\<not> pdf_chapter_fails (snd (jobs ! i)) \<longrightarrow>
           split_status (cs ! i) = SUCCESS \<and> output_file_path (cs ! i) \<in> set (output_files st))"
      by simp
  qed
  from run len each show ?thesis by blast
qed

lemma epub_split_continues:
  assumes dir: "validate_output_directory (epub_dir_usable env) (output_directory settings)"
    and src: "source_items env = Some book"
  shows "\<exists>outs cs st.
     split_epub_by_chapters dai sho env document jobs settings = Inr (outs, cs, st) \<and>
     outs = output_files st \<and> length cs = length jobs \<and>
     (\<forall>i < length jobs. xpath (fst (jobs ! i)) \<noteq> [] \<longrightarrow>
        (epub_chapter_fails book (fst (jobs ! i)) (snd (jobs ! i)) \<longrightarrow>
           split_status (cs ! i) = ERROR) \<and>
        (\<not> epub_chapter_fails book (fst (jobs ! i)) (snd (jobs ! i)) \<longrightarrow>
           split_status (cs ! i) = SUCCESS \<and> output_file_path (cs ! i) \<in> set outs))"
proof -
  define st0 where "st0 = \<lparr>existing = epub_files_before env, written = [],
      logged = (if requires_format_conversion settings (doc_file_type document) \<and>
                   output_format settings = OUT_PDF
                then [WarnConversionUnsupported] else []),
      output_files = []\<rparr>"
  define ext where "ext = epub_output_extension settings document"
  obtain cs st where l: "split_epub_loop dai sho document settings ext book jobs st0 = (cs, st)"
    by (cases "split_epub_loop dai sho document settings ext book jobs st0")
  have run: "split_epub_by_chapters dai sho env document jobs settings =
               Inr (output_files st, cs, st)"
    using dir src l by (simp add: split_epub_by_chapters_def st0_def ext_def)
  have len: "length cs = length jobs"
    using epub_loop_length[of dai sho document settings ext book jobs st0] l by simp
  have each: "\<forall>i < length jobs. xpath (fst (jobs ! i)) \<noteq> [] \<longrightarrow>
        (epub_chapter_fails book (fst (jobs ! i)) (snd (jobs ! i)) \<longrightarrow>
           split_status (cs ! i) = ERROR) \<and>
        (\<not> epub_chapter_fails book (fst (jobs ! i)) (snd (jobs ! i)) \<longrightarrow>
           split_status (cs ! i) = SUCCESS \<and> output_file_path (cs ! i) \<in> set (output_files st))"
  proof (intro allI impI)
    fix i
    assume i: "i < length jobs" and v: "xpath (fst (jobs ! i)) \<noteq> []"
    from epub_loop_chapters[OF i v, where dai=dai and sho=sho and document=document
          and settings=settings and ext=ext and book=book and st=st0] l
    show "(epub_chapter_fails book (fst (jobs ! i)) (snd (jobs ! i)) \<longrightarrow>
           split_status (cs ! i) = ERROR) \<and>
        (\<not> epub_chapter_fails book (fst (jobs ! i)) (snd (jobs ! i)) \<longrightarrow>
           split_status (cs ! i) = SUCCESS \<and> output_file_path (cs ! i) \<in> set (output_files st))"
      by simp
  qed
  from run len each show ?thesis by blast
qed

lemma pdf_precheck_rejects_iff: "pdf_precheck_rejects c = (\<not> is_valid_pdf_chapter c)"
  by (auto simp: pdf_precheck_rejects_def is_valid_pdf_chapter_def split: option.splits)

lemma pdf_split_skips:
  assumes dir: "validate_output_directory (dir_usable env) (output_directory settings)"
    and src: "source_pages env = Some n"
    and inv: "pdf_precheck_rejects c"
  shows "\<exists>outs cs1 cs2 st st'.
     split_pdf_by_chapters dai sho env document (js1 @ (c, io) # js2) settings =
       Inr (outs, cs1 @ c # cs2, st) \<and>
     split_pdf_by_chapters dai sho env document (js1 @ js2) settings =
       Inr (outs, cs1 @ cs2, st') \<and>
     length cs1 = length js1 \<and> same_files st st' \<and>
     WarnInvalidChapter (title c) \<in> set (logged st)"
proof -
  define st0 where "st0 = \<lparr>existing = files_before env, written = [],
      logged = (if requires_format_conversion settings (doc_file_type document) \<and>
                   output_format settings = OUT_EPUB
                then [WarnConversionUnsupported] else []),
      output_files = []\<rparr>"
  define ext where "ext = pdf_output_extension settings document"
  from inv have "\<not> is_valid_pdf_chapter c" by (simp add: pdf_precheck_rejects_iff)
  from pdf_skip_invalid[OF this, where dai=dai and sho=sho and document=document
      and settings=settings and ext=ext and n=n and ?js1.0=js1 and io=io and ?js2.0=js2
      and ?st0.0=st0]
  obtain cs1 cs2 st st' where
    a: "split_pdf_loop dai sho document settings ext n (js1 @ (c, io) # js2) st0 =
          (cs1 @ c # cs2, st)"
    and b: "split_pdf_loop dai sho document settings ext n (js1 @ js2) st0 = (cs1 @ cs2, st')"
    and r: "length cs1 = length js1" "same_files st st'"
       "WarnInvalidChapter (title c) \<in> set (logged st)"
    by blast
  have ra: "split_pdf_by_chapters dai sho env document (js1 @ (c, io) # js2) settings =
              Inr (output_files st, cs1 @ c # cs2, st)"
    using dir src a by (simp add: split_pdf_by_chapters_def st0_def ext_def)
  have rb: "split_pdf_by_chapters dai sho env document (js1 @ js2) settings =
              Inr (output_files st', cs1 @ cs2, st')"
    using dir src b by (simp add: split_pdf_by_chapters_def st0_def ext_def)
  have "output_files st = output_files st'" using r(2) by (simp add: same_files_def)
  with ra rb r show ?thesis by metis
qed

lemma epub_split_skips:
  assumes dir: "validate_output_directory (epub_dir_usable env) (output_directory settings)"
    and src: "source_items env = Some book"
    and inv: "xpath c = []"
  shows "\<exists>outs cs1 cs2 st st'.
     split_epub_by_chapters dai sho env document (js1 @ (c, io) # js2) settings =
       Inr (outs, cs1 @ c # cs2, st) \<and>
     split_epub_by_chapters dai sho env document (js1 @ js2) settings =
       Inr (outs, cs1 @ cs2, st') \<and>
     length cs1 = length js1 \<and> same_files st st' \<and>
     WarnInvalidChapter (title c) \<in> set (logged st)"
proof -
  define st0 where "st0 = \<lparr>existing = epub_files_before env, written = [],
      logged = (if requires_format_conversion settings (doc_file_type document) \<and>
                   output_format settings = OUT_PDF
                then [WarnConversionUnsupported] else []),
      output_files = []\<rparr>"
  define ext where "ext = epub_output_extension settings document"
  from epub_skip_invalid[OF inv, where dai=dai and sho=sho and document=document
      and settings=settings and ext=ext and book=book and ?js1.0=js1 and io=io and ?js2.0=js2
      and ?st0.0=st0]
  obtain cs1 cs2 st st' where
    a: "split_epub_loop dai sho document settings ext book (js1 @ (c, io) # js2) st0 =
          (cs1 @ c # cs2, st)"
    and b: "split_epub_loop dai sho document settings ext book (js1 @ js2) st0 = (cs1 @ cs2, st')"
    and r: "length cs1 = length js1" "same_files st st'"
       "WarnInvalidChapter (title c) \<in> set (logged st)"
    by blast
  have ra: "split_epub_by_chapters dai sho env document (js1 @ (c, io) # js2) settings =
              Inr (output_files st, cs1 @ c # cs2, st)"
    using dir src a by (simp add: split_epub_by_chapters_def st0_def ext_def)
  have rb: "split_epub_by_chapters dai sho env document (js1 @ js2) settings =
              Inr (output_files st', cs1 @ cs2, st')"
    using dir src b by (simp add: split_epub_by_chapters_def st0_def ext_def)
  have "output_files st = output_files st'" using r(2) by (simp add: same_files_def)
  with ra rb r show ?thesis by metis
qed

lemma pdf_forced_extension:
  "doc_file_type document = PDF \<Longrightarrow>
     pdf_output_extension (settings\<lparr>output_format := OUT_EPUB\<rparr>) document = ''.pdf'' \<and>
     pdf_output_extension (settings\<lparr>output_format := SAME_AS_INPUT\<rparr>) document = ''.pdf''"
  by (simp add: pdf_output_extension_def requires_format_conversion_def get_output_extension_def)

lemma epub_forced_extension:
  "doc_file_type document = EPUB \<Longrightarrow>
     epub_output_extension (settings\<lparr>output_format := OUT_PDF\<rparr>) document = ''.epub'' \<and>
     epub_output_extension (settings\<lparr>output_format := SAME_AS_INPUT\<rparr>) document = ''.epub''"
  by (simp add: epub_output_extension_def requires_format_conversion_def get_output_extension_def)

lemma sample_setup:
  "validate_output_directory (dir_usable sample_pdf_env) (output_directory sample_settings)"
  "source_pages sample_pdf_env = Some 3"
  "validate_output_directory (epub_dir_usable sample_epub_env) (output_directory sample_settings)"
  "source_items sample_epub_env = Some sample_book"
  by (simp_all add: validate_output_directory_def sample_pdf_env_def sample_epub_env_def
        sample_settings_def)

lemma sample_pdf_outputs:
  "map_sum id fst (split_pdf_by_chapters CHR ''d'' CHR ''s'' sample_pdf_env (sample_document PDF)
      sample_pdf_jobs sample_settings) = Inr [''out/01_A.pdf'', ''out/03_C.pdf'']"
  by code_simp

lemma sample_epub_outputs:
  "map_sum id fst (split_epub_by_chapters CHR ''d'' CHR ''s'' sample_epub_env (sample_document EPUB)
      sample_epub_jobs sample_settings) = Inr [''out/01_A.epub'', ''out/03_C.epub'']"
  by code_simp

subsection \<open>Chapter failures, forced formats and skipped chapters\<close>

text \<open>
  C3: a split fails as a whole exactly when its setup fails, which is an unusable output
  directory or a source that does not open. When the setup succeeds the call returns the list of
  paths together with one chapter for each given chapter, in order. A chapter that passes the
  pre-check and whose handling fails (an exception before the save block, no file saved, for an
  EPUB also no content) has the status \<open>ERROR\<close>; every other chapter that passes the pre-check,
  also one after a failed chapter, has the status \<open>SUCCESS\<close> and its path is in the returned
  list. A page that cannot be copied or metadata that cannot be set is logged and is not a
  failure of the chapter.
\<close>

theorem split_continues_after_chapter_failure:
  "((split_pdf_by_chapters dai sho env document jobs settings = Inl FileProcessingError) =
      (\<not> validate_output_directory (dir_usable env) (output_directory settings) \<or>
       source_pages env = None)) \<and>
   (validate_output_directory (dir_usable env) (output_directory settings) \<and>
    source_pages env \<noteq> None \<longrightarrow>
      (\<exists>outs cs st.
         split_pdf_by_chapters dai sho env document jobs settings = Inr (outs, cs, st) \<and>
         outs = output_files st \<and> length cs = length jobs \<and>
         (\<forall>i < length jobs. is_valid_pdf_chapter (fst (jobs ! i)) \<longrightarrow>
            (pdf_chapter_fails (snd (jobs ! i)) \<longrightarrow> split_status (cs ! i) = ERROR) \<and>
            (\<not> pdf_chapter_fails (snd (jobs ! i)) \<longrightarrow>
               split_status (cs ! i) = SUCCESS \<and> output_file_path (cs ! i) \<in> set outs)))) \<and>
   ((split_epub_by_chapters dai sho eenv edocument ejobs settings = Inl FileProcessingError) =
      (\<not> validate_output_directory (epub_dir_usable eenv) (output_directory settings) \<or>
       source_items eenv = None)) \<and>
   (\<forall>book. validate_output_directory (epub_dir_usable eenv) (output_directory settings) \<and>
      source_items eenv = Some book \<longrightarrow>
      (\<exists>outs cs st.
         split_epub_by_chapters dai sho eenv edocument ejobs settings = Inr (outs, cs, st) \<and>
         outs = output_files st \<and> length cs = length ejobs \<and>
         (\<forall>i < length ejobs. xpath (fst (ejobs ! i)) \<noteq> [] \<longrightarrow>
            (epub_chapter_fails book (fst (ejobs ! i)) (snd (ejobs ! i)) \<longrightarrow>
               split_status (cs ! i) = ERROR) \<and>
            (\<not> epub_chapter_fails book (fst (ejobs ! i)) (snd (ejobs ! i)) \<longrightarrow>
               split_status (cs ! i) = SUCCESS \<and> output_file_path (cs ! i) \<in> set outs))))"
proof (intro conjI allI impI)
  show "(split_pdf_by_chapters dai sho env document jobs settings = Inl FileProcessingError) =
      (\<not> validate_output_directory (dir_usable env) (output_directory settings) \<or>
       source_pages env = None)"
    by (rule pdf_split_setup)
next
  assume a: "validate_output_directory (dir_usable env) (output_directory settings) \<and>
    source_pages env \<noteq> None"
  then obtain n where "source_pages env = Some n" by auto
  with a show "\<exists>outs cs st.
         split_pdf_by_chapters dai sho env document jobs settings = Inr (outs, cs, st) \<and>
         outs = output_files st \<and> length cs = length jobs \<and>
         (\<forall>i < length jobs. is_valid_pdf_chapter (fst (jobs ! i)) \<longrightarrow>
            (pdf_chapter_fails (snd (jobs ! i)) \<longrightarrow> split_status (cs ! i) = ERROR) \<and>
            (\<not> pdf_chapter_fails (snd (jobs ! i)) \<longrightarrow>
               split_status (cs ! i) = SUCCESS \<and> output_file_path (cs ! i) \<in> set outs))"
    using pdf_split_continues by blast
next
  show "(split_epub_by_chapters dai sho eenv edocument ejobs settings = Inl FileProcessingError) =
      (\<not> validate_output_directory (epub_dir_usable eenv) (output_directory settings) \<or>
       source_items eenv = None)"
    by (rule epub_split_setup)
next
  fix book
  assume "validate_output_directory (epub_dir_usable eenv) (output_directory settings) \<and>
      source_items eenv = Some book"
  then show "\<exists>outs cs st.
         split_epub_by_chapters dai sho eenv edocument ejobs settings = Inr (outs, cs, st) \<and>
         outs = output_files st \<and> length cs = length ejobs \<and>
         (\<forall>i < length ejobs. xpath (fst (ejobs ! i)) \<noteq> [] \<longrightarrow>
            (epub_chapter_fails book (fst (ejobs ! i)) (snd (ejobs ! i)) \<longrightarrow>
               split_status (cs ! i) = ERROR) \<and>
            (\<not> epub_chapter_fails book (fst (ejobs ! i)) (snd (ejobs ! i)) \<longrightarrow>
               split_status (cs ! i) = SUCCESS \<and> output_file_path (cs ! i) \<in> set outs))"
    using epub_split_continues by blast
qed

theorem split_continues_after_chapter_failure_witness:
  "(\<exists>outs cs st.
      split_pdf_by_chapters CHR ''d'' CHR ''s'' sample_pdf_env (sample_document PDF)
        sample_pdf_jobs sample_settings = Inr (outs, cs, st) \<and>
      length cs = 3 \<and> split_status (cs ! 0) = SUCCESS \<and> split_status (cs ! 1) = ERROR \<and>
      split_status (cs ! 2) = SUCCESS \<and> output_file_path (cs ! 2) \<in> set outs) \<and>
   (\<exists>outs cs st.
      split_epub_by_chapters CHR ''d'' CHR ''s'' sample_epub_env (sample_document EPUB)
        sample_epub_jobs sample_settings = Inr (outs, cs, st) \<and>
      length cs = 3 \<and> split_status (cs ! 0) = SUCCESS \<and> split_status (cs ! 1) = ERROR \<and>
      split_status (cs ! 2) = SUCCESS \<and> output_file_path (cs ! 2) \<in> set outs) \<and>
   split_pdf_by_chapters CHR ''d'' CHR ''s'' (sample_pdf_env\<lparr>source_pages := None\<rparr>)
     (sample_document PDF) sample_pdf_jobs sample_settings = Inl FileProcessingError \<and>
   split_epub_by_chapters CHR ''d'' CHR ''s'' (sample_epub_env\<lparr>epub_dir_usable := False\<rparr>)
     (sample_document EPUB) sample_epub_jobs sample_settings = Inl FileProcessingError"
proof -
  note good = split_continues_after_chapter_failure[where dai = "CHR ''d''" and sho = "CHR ''s''"
      and env = sample_pdf_env and document = "sample_document PDF" and jobs = sample_pdf_jobs
      and settings = sample_settings and eenv = sample_epub_env
      and edocument = "sample_document EPUB" and ejobs = sample_epub_jobs]
  note bad = split_continues_after_chapter_failure[where dai = "CHR ''d''" and sho = "CHR ''s''"
      and env = "sample_pdf_env\<lparr>source_pages := None\<rparr>" and document = "sample_document PDF"
      and jobs = sample_pdf_jobs and settings = sample_settings
      and eenv = "sample_epub_env\<lparr>epub_dir_usable := False\<rparr>"
      and edocument = "sample_document EPUB" and ejobs = sample_epub_jobs]
  have valid: "\<forall>i < 3. is_valid_pdf_chapter (fst (sample_pdf_jobs ! i))"
    by (simp add: sample_pdf_jobs_def sample_chapter_def Chapter_default_def
          is_valid_pdf_chapter_def less_Suc_eq numeral_3_eq_3)
  have fails: "\<not> pdf_chapter_fails (snd (sample_pdf_jobs ! 0))"
    "pdf_chapter_fails (snd (sample_pdf_jobs ! 1))"
    "\<not> pdf_chapter_fails (snd (sample_pdf_jobs ! 2))"
    by (simp_all add: sample_pdf_jobs_def pdf_io_def pdf_chapter_fails_def)
  have len: "length sample_pdf_jobs = 3" "length sample_epub_jobs = 3"
    by (simp_all add: sample_pdf_jobs_def sample_epub_jobs_def)
  from good sample_setup(1,2) obtain outs cs st where
    run: "split_pdf_by_chapters CHR ''d'' CHR ''s'' sample_pdf_env (sample_document PDF)
            sample_pdf_jobs sample_settings = Inr (outs, cs, st)"
    and l: "length cs = length sample_pdf_jobs"
    and each: "\<forall>i < length sample_pdf_jobs. is_valid_pdf_chapter (fst (sample_pdf_jobs ! i)) \<longrightarrow>
            (pdf_chapter_fails (snd (sample_pdf_jobs ! i)) \<longrightarrow> split_status (cs ! i) = ERROR) \<and>
            (\<not> pdf_chapter_fails (snd (sample_pdf_jobs ! i)) \<longrightarrow>
               split_status (cs ! i) = SUCCESS \<and> output_file_path (cs ! i) \<in> set outs)"
    by auto
  from each valid fails len(1)
  have p: "split_status (cs ! 0) = SUCCESS" "split_status (cs ! 1) = ERROR"
    "split_status (cs ! 2) = SUCCESS" "output_file_path (cs ! 2) \<in> set outs"
    by auto
  have evalid: "\<forall>i < 3. xpath (fst (sample_epub_jobs ! i)) \<noteq> []"
    by (simp add: sample_epub_jobs_def sample_chapter_def Chapter_default_def less_Suc_eq
          numeral_3_eq_3)
  have efails: "\<not> epub_chapter_fails sample_book (fst (sample_epub_jobs ! 0))
                   (snd (sample_epub_jobs ! 0))"
    "epub_chapter_fails sample_book (fst (sample_epub_jobs ! 1)) (snd (sample_epub_jobs ! 1))"
    "\<not> epub_chapter_fails sample_book (fst (sample_epub_jobs ! 2))
         (snd (sample_epub_jobs ! 2))"
    by (simp_all add: sample_epub_jobs_def epub_io_def epub_chapter_fails_def
          get_chapter_items_def sample_book_def sample_chapter_def Chapter_default_def
          item_name_def)
  from good sample_setup(3,4) obtain eouts ecs est where
    erun: "split_epub_by_chapters CHR ''d'' CHR ''s'' sample_epub_env (sample_document EPUB)
            sample_epub_jobs sample_settings = Inr (eouts, ecs, est)"
    and el: "length ecs = length sample_epub_jobs"
    and eeach: "\<forall>i < length sample_epub_jobs. xpath (fst (sample_epub_jobs ! i)) \<noteq> [] \<longrightarrow>
            (epub_chapter_fails sample_book (fst (sample_epub_jobs ! i))
               (snd (sample_epub_jobs ! i)) \<longrightarrow> split_status (ecs ! i) = ERROR) \<and>
            (\<not> epub_chapter_fails sample_book (fst (sample_epub_jobs ! i))
                 (snd (sample_epub_jobs ! i)) \<longrightarrow>
               split_status (ecs ! i) = SUCCESS \<and> output_file_path (ecs ! i) \<in> set eouts)"
    by auto
  from eeach evalid efails len(2)
  have q: "split_status (ecs ! 0) = SUCCESS" "split_status (ecs ! 1) = ERROR"
    "split_status (ecs ! 2) = SUCCESS" "output_file_path (ecs ! 2) \<in> set eouts"
    by auto
  from bad have b: "split_pdf_by_chapters CHR ''d'' CHR ''s'' (sample_pdf_env\<lparr>source_pages := None\<rparr>)
     (sample_document PDF) sample_pdf_jobs sample_settings = Inl FileProcessingError"
    "split_epub_by_chapters CHR ''d'' CHR ''s'' (sample_epub_env\<lparr>epub_dir_usable := False\<rparr>)
     (sample_document EPUB) sample_epub_jobs sample_settings = Inl FileProcessingError"
    by (simp_all add: validate_output_directory_def)
  from run l len p have A: "\<exists>outs cs st.
      split_pdf_by_chapters CHR ''d'' CHR ''s'' sample_pdf_env (sample_document PDF)
        sample_pdf_jobs sample_settings = Inr (outs, cs, st) \<and>
      length cs = 3 \<and> split_status (cs ! 0) = SUCCESS \<and> split_status (cs ! 1) = ERROR \<and>
      split_status (cs ! 2) = SUCCESS \<and> output_file_path (cs ! 2) \<in> set outs"
    by simp
  from erun el len q have B: "\<exists>outs cs st.
      split_epub_by_chapters CHR ''d'' CHR ''s'' sample_epub_env (sample_document EPUB)
        sample_epub_jobs sample_settings = Inr (outs, cs, st) \<and>
      length cs = 3 \<and> split_status (cs ! 0) = SUCCESS \<and> split_status (cs ! 1) = ERROR \<and>
      split_status (cs ! 2) = SUCCESS \<and> output_file_path (cs ! 2) \<in> set outs"
    by simp
  from A B b show ?thesis by (intro conjI)
qed

text \<open>
  C9: when the settings of a PDF split ask for EPUB output, or those of an EPUB split for PDF
  output, the extension of the output files is the one of the source, and the call ends as the
  call with same-format output ends: with the same error, or with the same list of paths, the
  same chapters and the same files, the log having the warning about the conversion in front.
\<close>

theorem forced_conversion_keeps_native_format:
  "(doc_file_type document = PDF \<longrightarrow>
      pdf_output_extension (settings\<lparr>output_format := OUT_EPUB\<rparr>) document = ''.pdf'' \<and>
      pdf_output_extension (settings\<lparr>output_format := SAME_AS_INPUT\<rparr>) document = ''.pdf'' \<and>
      split_pdf_by_chapters dai sho env document jobs (settings\<lparr>output_format := OUT_EPUB\<rparr>) =
        (case split_pdf_by_chapters dai sho env document jobs
                (settings\<lparr>output_format := SAME_AS_INPUT\<rparr>) of
           Inl e \<Rightarrow> Inl e
         | Inr (outs, cs, st) \<Rightarrow> Inr (outs, cs, prepend_log [WarnConversionUnsupported] st))) \<and>
   (doc_file_type edocument = EPUB \<longrightarrow>
      epub_output_extension (settings\<lparr>output_format := OUT_PDF\<rparr>) edocument = ''.epub'' \<and>
      epub_output_extension (settings\<lparr>output_format := SAME_AS_INPUT\<rparr>) edocument = ''.epub'' \<and>
      split_epub_by_chapters dai sho eenv edocument ejobs (settings\<lparr>output_format := OUT_PDF\<rparr>) =
        (case split_epub_by_chapters dai sho eenv edocument ejobs
                (settings\<lparr>output_format := SAME_AS_INPUT\<rparr>) of
           Inl e \<Rightarrow> Inl e
         | Inr (outs, cs, st) \<Rightarrow> Inr (outs, cs, prepend_log [WarnConversionUnsupported] st)))"
  using pdf_forced_conversion[of document dai sho env jobs settings]
    epub_forced_conversion[of edocument dai sho eenv ejobs settings]
    pdf_forced_extension[of document settings] epub_forced_extension[of edocument settings]
  by blast

lemma sample_same_format: "sample_settings\<lparr>output_format := SAME_AS_INPUT\<rparr> = sample_settings"
  by (simp add: sample_settings_def)

theorem forced_conversion_keeps_native_format_witness:
  "(\<exists>cs st.
      split_pdf_by_chapters CHR ''d'' CHR ''s'' sample_pdf_env (sample_document PDF)
        sample_pdf_jobs (sample_settings\<lparr>output_format := OUT_EPUB\<rparr>) =
        Inr ([''out/01_A.pdf'', ''out/03_C.pdf''], cs,
             prepend_log [WarnConversionUnsupported] st) \<and>
      split_pdf_by_chapters CHR ''d'' CHR ''s'' sample_pdf_env (sample_document PDF)
        sample_pdf_jobs sample_settings = Inr ([''out/01_A.pdf'', ''out/03_C.pdf''], cs, st)) \<and>
   (\<exists>cs st.
      split_epub_by_chapters CHR ''d'' CHR ''s'' sample_epub_env (sample_document EPUB)
        sample_epub_jobs (sample_settings\<lparr>output_format := OUT_PDF\<rparr>) =
        Inr ([''out/01_A.epub'', ''out/03_C.epub''], cs,
             prepend_log [WarnConversionUnsupported] st) \<and>
      split_epub_by_chapters CHR ''d'' CHR ''s'' sample_epub_env (sample_document EPUB)
        sample_epub_jobs sample_settings = Inr ([''out/01_A.epub'', ''out/03_C.epub''], cs, st))"
proof -
  note forced = forced_conversion_keeps_native_format[where dai = "CHR ''d''"
      and sho = "CHR ''s''" and env = sample_pdf_env and document = "sample_document PDF"
      and jobs = sample_pdf_jobs and settings = sample_settings and eenv = sample_epub_env
      and edocument = "sample_document EPUB" and ejobs = sample_epub_jobs,
      unfolded sample_same_format]
  have types: "doc_file_type (sample_document PDF) = PDF"
    "doc_file_type (sample_document EPUB) = EPUB"
    by (simp_all add: sample_document_def)
  from sample_pdf_outputs obtain cs st where
    run: "split_pdf_by_chapters CHR ''d'' CHR ''s'' sample_pdf_env (sample_document PDF)
            sample_pdf_jobs sample_settings = Inr ([''out/01_A.pdf'', ''out/03_C.pdf''], cs, st)"
    by (cases "split_pdf_by_chapters CHR ''d'' CHR ''s'' sample_pdf_env (sample_document PDF)
            sample_pdf_jobs sample_settings") auto
  from sample_epub_outputs obtain ecs est where
    erun: "split_epub_by_chapters CHR ''d'' CHR ''s'' sample_epub_env (sample_document EPUB)
            sample_epub_jobs sample_settings =
              Inr ([''out/01_A.epub'', ''out/03_C.epub''], ecs, est)"
    by (cases "split_epub_by_chapters CHR ''d'' CHR ''s'' sample_epub_env (sample_document EPUB)
            sample_epub_jobs sample_settings") auto
  from forced types run have A: "split_pdf_by_chapters CHR ''d'' CHR ''s'' sample_pdf_env
        (sample_document PDF) sample_pdf_jobs (sample_settings\<lparr>output_format := OUT_EPUB\<rparr>) =
        Inr ([''out/01_A.pdf'', ''out/03_C.pdf''], cs, prepend_log [WarnConversionUnsupported] st)"
    by simp
  from forced types erun have B: "split_epub_by_chapters CHR ''d'' CHR ''s'' sample_epub_env
        (sample_document EPUB) sample_epub_jobs (sample_settings\<lparr>output_format := OUT_PDF\<rparr>) =
        Inr ([''out/01_A.epub'', ''out/03_C.epub''], ecs,
             prepend_log [WarnConversionUnsupported] est)"
    by simp
  from A run B erun show ?thesis by blast
qed

text \<open>
  C10: a chapter that the pre-check rejects (for a PDF a missing page bound, a first page after
  the last one or a first page that is not positive; for an EPUB an empty reference) is returned
  as it was given, so with the status and the output path it had, and a warning is logged. The
  list of paths, the other chapters and the files are those of the split without that chapter.
\<close>

theorem rejected_chapter_is_skipped:
  "(validate_output_directory (dir_usable env) (output_directory settings) \<and>
    source_pages env = Some n \<and> pdf_precheck_rejects c \<longrightarrow>
      (\<exists>outs cs1 cs2 st st'.
         split_pdf_by_chapters dai sho env document (js1 @ (c, io) # js2) settings =
           Inr (outs, cs1 @ c # cs2, st) \<and>
         split_pdf_by_chapters dai sho env document (js1 @ js2) settings =
           Inr (outs, cs1 @ cs2, st') \<and>
         length cs1 = length js1 \<and> same_files st st' \<and>
         WarnInvalidChapter (title c) \<in> set (logged st))) \<and>
   (validate_output_directory (epub_dir_usable eenv) (output_directory settings) \<and>
    source_items eenv = Some book \<and> xpath ec = [] \<longrightarrow>
      (\<exists>outs cs1 cs2 st st'.
         split_epub_by_chapters dai sho eenv edocument (ejs1 @ (ec, eio) # ejs2) settings =
           Inr (outs, cs1 @ ec # cs2, st) \<and>
         split_epub_by_chapters dai sho eenv edocument (ejs1 @ ejs2) settings =
           Inr (outs, cs1 @ cs2, st') \<and>
         length cs1 = length ejs1 \<and> same_files st st' \<and>
         WarnInvalidChapter (title ec) \<in> set (logged st)))"
proof (intro conjI impI)
  assume "validate_output_directory (dir_usable env) (output_directory settings) \<and>
    source_pages env = Some n \<and> pdf_precheck_rejects c"
  then show "\<exists>outs cs1 cs2 st st'.
         split_pdf_by_chapters dai sho env document (js1 @ (c, io) # js2) settings =
           Inr (outs, cs1 @ c # cs2, st) \<and>
         split_pdf_by_chapters dai sho env document (js1 @ js2) settings =
           Inr (outs, cs1 @ cs2, st') \<and>
         length cs1 = length js1 \<and> same_files st st' \<and>
         WarnInvalidChapter (title c) \<in> set (logged st)"
    using pdf_split_skips by blast
next
  assume "validate_output_directory (epub_dir_usable eenv) (output_directory settings) \<and>
    source_items eenv = Some book \<and> xpath ec = []"
  then show "\<exists>outs cs1 cs2 st st'.
         split_epub_by_chapters dai sho eenv edocument (ejs1 @ (ec, eio) # ejs2) settings =
           Inr (outs, cs1 @ ec # cs2, st) \<and>
         split_epub_by_chapters dai sho eenv edocument (ejs1 @ ejs2) settings =
           Inr (outs, cs1 @ cs2, st') \<and>
         length cs1 = length ejs1 \<and> same_files st st' \<and>
         WarnInvalidChapter (title ec) \<in> set (logged st)"
    using epub_split_skips by blast
qed

theorem rejected_chapter_is_skipped_witness:
  "(\<exists>outs cs1 cs2 st st'.
      split_pdf_by_chapters CHR ''d'' CHR ''s'' sample_pdf_env (sample_document PDF)
        (take 1 sample_pdf_jobs @ (sample_chapter 2 ''X'' None [], pdf_io Saved)
           # drop 1 sample_pdf_jobs) sample_settings =
        Inr (outs, cs1 @ sample_chapter 2 ''X'' None [] # cs2, st) \<and>
      split_pdf_by_chapters CHR ''d'' CHR ''s'' sample_pdf_env (sample_document PDF)
        (take 1 sample_pdf_jobs @ drop 1 sample_pdf_jobs) sample_settings =
        Inr (outs, cs1 @ cs2, st') \<and>
      length cs1 = 1 \<and> same_files st st' \<and> WarnInvalidChapter ''X'' \<in> set (logged st)) \<and>
   (\<exists>outs cs1 cs2 st st'.
      split_epub_by_chapters CHR ''d'' CHR ''s'' sample_epub_env (sample_document EPUB)
        (take 1 sample_epub_jobs @ (sample_chapter 2 ''X'' None [], epub_io Saved)
           # drop 1 sample_epub_jobs) sample_settings =
        Inr (outs, cs1 @ sample_chapter 2 ''X'' None [] # cs2, st) \<and>
      split_epub_by_chapters CHR ''d'' CHR ''s'' sample_epub_env (sample_document EPUB)
        (take 1 sample_epub_jobs @ drop 1 sample_epub_jobs) sample_settings =
        Inr (outs, cs1 @ cs2, st') \<and>
      length cs1 = 1 \<and> same_files st st' \<and> WarnInvalidChapter ''X'' \<in> set (logged st)) \<and>
   split_status (sample_chapter 2 ''X'' None []) = PENDING \<and>
   output_file_path (sample_chapter 2 ''X'' None []) = []"
proof -
  note skipped = rejected_chapter_is_skipped[where dai = "CHR ''d''" and sho = "CHR ''s''"
      and env = sample_pdf_env and document = "sample_document PDF" and settings = sample_settings
      and n = 3 and c = "sample_chapter 2 ''X'' None []" and io = "pdf_io Saved"
      and ?js1.0 = "take 1 sample_pdf_jobs" and ?js2.0 = "drop 1 sample_pdf_jobs"
      and eenv = sample_epub_env and edocument = "sample_document EPUB" and book = sample_book
      and ec = "sample_chapter 2 ''X'' None []" and eio = "epub_io Saved"
      and ?ejs1.0 = "take 1 sample_epub_jobs" and ?ejs2.0 = "drop 1 sample_epub_jobs"]
  have rej: "pdf_precheck_rejects (sample_chapter 2 ''X'' None [])"
    "xpath (sample_chapter 2 ''X'' None []) = []"
    "title (sample_chapter 2 ''X'' None []) = ''X''"
    "split_status (sample_chapter 2 ''X'' None []) = PENDING"
    "output_file_path (sample_chapter 2 ''X'' None []) = []"
    by (simp_all add: pdf_precheck_rejects_def sample_chapter_def Chapter_default_def)
  have len: "length (take 1 sample_pdf_jobs) = 1" "length (take 1 sample_epub_jobs) = 1"
    by (simp_all add: sample_pdf_jobs_def sample_epub_jobs_def)
  from skipped sample_setup rej len show ?thesis by simp
qed

end
